theory Spec2Isabelle
  imports Main
begin

section \<open>Text and errors\<close>

text \<open>
  The library \<^verbatim>\<open>hyphe_backend/lib/urllru.py\<close> is Python 2 code over texts.  Its
  callers hand it byte strings (\<^verbatim>\<open>str\<close>); a byte string is a \<^typ>\<open>string\<close>, one
  \<^typ>\<open>char\<close> per byte.  The recoding helpers return \<^verbatim>\<open>unicode\<close> objects, which the
  section on text encoding adds to the model.
  Every exception the code can raise is a value of \<open>error\<close>; a function that can
  raise returns \<open>error + 'a\<close> with \<open>Inl\<close> for the exception.
\<close>

datatype error = ValueError | IndexError | AttributeError | UnboundLocalError | UnicodeDecodeError

subsection \<open>Python string methods\<close>

definition startswith :: "string \<Rightarrow> string \<Rightarrow> bool" where
  "startswith s p = (take (length p) s = p)"

definition endswith :: "string \<Rightarrow> string \<Rightarrow> bool" where
  "endswith s p = startswith (rev s) (rev p)"

definition rstrip :: "string \<Rightarrow> string \<Rightarrow> string" where
  "rstrip s cs = rev (dropWhile (\<lambda>c. c \<in> set cs) (rev s))"

fun join :: "string \<Rightarrow> string list \<Rightarrow> string" where
  "join sep [] = []"
| "join sep [x] = x"
| "join sep (x # y # ys) = x @ sep @ join sep (y # ys)"

text \<open>Adds a character in front of the first element of a split in progress.\<close>

fun prepend :: "char \<Rightarrow> string list \<Rightarrow> string list" where
  "prepend c [] = [[c]]"
| "prepend c (t # ts) = (c # t) # ts"

text \<open>\<^verbatim>\<open>s.split(c)\<close> for a separator of one character.\<close>

fun split_on :: "char \<Rightarrow> string \<Rightarrow> string list" where
  "split_on c [] = [[]]"
| "split_on c (x # xs) = (if x = c then [] # split_on c xs else prepend x (split_on c xs))"

definition lower_char :: "char \<Rightarrow> char" where
  "lower_char c = (let n = (of_char c :: nat) in if 65 \<le> n \<and> n \<le> 90 then char_of (n + 32) else c)"

definition lower :: "string \<Rightarrow> string" where
  "lower s = map lower_char s"

text \<open>\<^verbatim>\<open>sub in s\<close>.\<close>

fun contains :: "string \<Rightarrow> string \<Rightarrow> bool" where
  "contains [] sub = (sub = [])"
| "contains (c # cs) sub = (startswith (c # cs) sub \<or> contains cs sub)"

text \<open>
  \<^verbatim>\<open>s.replace(old, new)\<close>: every occurrence, left to right, without overlap.  For an
  empty \<open>old\<close> Python puts \<open>new\<close> before every character and at the end.
\<close>

function replace_all :: "string \<Rightarrow> string \<Rightarrow> string \<Rightarrow> string" where
  "replace_all s old new =
     (if old = [] then new @ concat (map (\<lambda>c. c # new) s)
      else if s = [] then []
      else if startswith s old then new @ replace_all (drop (length old) s) old new
      else hd s # replace_all (tl s) old new)"
  by pat_completeness auto
termination
  by (relation "measure (\<lambda>(s, old, new). length s)") auto

text \<open>\<^verbatim>\<open>s.replace(old, new, 1)\<close>: the first occurrence only.\<close>

fun replace_first :: "string \<Rightarrow> string \<Rightarrow> string \<Rightarrow> string" where
  "replace_first [] old new = (if old = [] then new else [])"
| "replace_first (c # cs) old new =
     (if startswith (c # cs) old then new @ drop (length old) (c # cs)
      else c # replace_first cs old new)"

text \<open>\<^verbatim>\<open>s.count(sub)\<close> for a non-empty \<open>sub\<close>: occurrences without overlap.\<close>

function count_sub :: "string \<Rightarrow> string \<Rightarrow> nat" where
  "count_sub s sub =
     (if sub = [] then Suc (length s)
      else if s = [] then 0
      else if startswith s sub then Suc (count_sub (drop (length sub) s) sub)
      else count_sub (tl s) sub)"
  by pat_completeness auto
termination
  by (relation "measure (\<lambda>(s, sub). length s)") auto

subsection \<open>Character classes of the regular expressions\<close>

definition is_digit :: "char \<Rightarrow> bool" where
  "is_digit c = (c \<in> set ''0123456789'')"

text \<open>\<^verbatim>\<open>[\da-f]\<close> under \<^verbatim>\<open>re.I\<close>.\<close>

definition is_hex :: "char \<Rightarrow> bool" where
  "is_hex c = (c \<in> set ''0123456789abcdefABCDEF'')"

text \<open>\<^verbatim>\<open>\s\<close>: space, tab, line feed, carriage return, form feed, vertical tab.\<close>

definition is_space :: "char \<Rightarrow> bool" where
  "is_space c = (c \<in> {CHR '' '', CHR 0x09, CHR 0x0A, CHR 0x0D, CHR 0x0C, CHR 0x0B})"

text \<open>\<^verbatim>\<open>$\<close> without \<^verbatim>\<open>re.M\<close>: the end of the text, or just before a final line feed.\<close>

definition at_end :: "string \<Rightarrow> bool" where
  "at_end s = (s = [] \<or> s = [CHR 0x0A])"

subsection \<open>urllib.quote and urllib.unquote\<close>

text \<open>
  The two functions of Python 2's \<^verbatim>\<open>urllib\<close> on byte strings.  \<^verbatim>\<open>quote\<close> keeps the
  letters, the digits, \<^verbatim>\<open>_.-\<close> and the characters of \<open>safe\<close>, and writes every other
  byte as \<^verbatim>\<open>%XX\<close> in upper-case hexadecimal.  \<^verbatim>\<open>unquote\<close> replaces every \<^verbatim>\<open>%\<close>
  followed by two hexadecimal digits by the byte they denote and keeps any other
  \<^verbatim>\<open>%\<close>.
\<close>

definition always_safe :: string where
  "always_safe = ''ABCDEFGHIJKLMNOPQRSTUVWXYZabcdefghijklmnopqrstuvwxyz0123456789_.-''"

definition hexdigit :: "nat \<Rightarrow> char" where
  "hexdigit n = ''0123456789ABCDEF'' ! n"

definition quoter :: "string \<Rightarrow> char \<Rightarrow> string" where
  "quoter safe c =
     (if c \<in> set always_safe \<or> c \<in> set safe then [c]
      else [CHR ''%'', hexdigit (of_char c div 16), hexdigit (of_char c mod 16)])"

definition quote :: "string \<Rightarrow> string \<Rightarrow> string" where
  "quote s safe = concat (map (quoter safe) s)"

definition hexval :: "char \<Rightarrow> nat" where
  "hexval c =
     (let n = (of_char c :: nat) in
      if 48 \<le> n \<and> n \<le> 57 then n - 48
      else if 65 \<le> n \<and> n \<le> 70 then n - 55
      else n - 87)"

fun unquote :: "string \<Rightarrow> string" where
  "unquote (c # a # b # rest) =
     (if c = CHR ''%'' \<and> is_hex a \<and> is_hex b
      then char_of (16 * hexval a + hexval b) # unquote rest
      else c # unquote (a # b # rest))"
| "unquote cs = cs"

section \<open>Text encoding helpers\<close>

subsection \<open>str and unicode\<close>

text \<open>
  A text is a \<^verbatim>\<open>str\<close>, a sequence of bytes, or a \<^verbatim>\<open>unicode\<close> object, a sequence of
  code points.  \<open>Str s\<close> is the byte string \<open>s\<close>; \<open>Uni s\<close> is the unicode object whose
  UTF-8 encoding, as Python 2 writes it, is \<open>s\<close>.  The patterns and the literals of
  the library are ASCII, and a byte of a UTF-8 sequence of several bytes is never an
  ASCII byte, so the slicing, searching and splitting functions above do on \<open>s\<close>
  what Python does on the code points; \<open>lower\<close> does so when the object has no
  upper-case letter outside ASCII.  The unicode objects that the library builds from
  byte strings outside \<^verbatim>\<open>uri_decode\<close> are ASCII.

  \<open>like t s\<close> is the text of content \<open>s\<close> and of the kind of \<open>t\<close>: what a
  slice of \<open>t\<close>, or a literal added to \<open>t\<close>, is.
\<close>

datatype ptext = Str string | Uni string

fun content :: "ptext \<Rightarrow> string" where
  "content (Str s) = s"
| "content (Uni s) = s"

fun is_unicode :: "ptext \<Rightarrow> bool" where
  "is_unicode (Str s) = False"
| "is_unicode (Uni s) = True"

fun like :: "ptext \<Rightarrow> string \<Rightarrow> ptext" where
  "like (Str t) s = Str s"
| "like (Uni t) s = Uni s"

definition ascii_text :: "string \<Rightarrow> bool" where
  "ascii_text s = list_all (\<lambda>c. (of_char c :: nat) < 128) s"

text \<open>
  \<^verbatim>\<open>sep.join(ts)\<close> for an ASCII literal \<open>sep\<close>.  When one of the texts is a unicode
  object the result is one, and Python first decodes every \<^verbatim>\<open>str\<close> among them as
  ASCII, which raises \<^verbatim>\<open>UnicodeDecodeError\<close> on a byte above 127.  The same holds
  for \<^verbatim>\<open>a + b\<close>, which is the join of \<open>a\<close> and \<open>b\<close> with an empty separator, and for
  \<^verbatim>\<open>"%s:%s" % (a, b)\<close>, which is their join with a colon.
\<close>

definition join_text :: "string \<Rightarrow> ptext list \<Rightarrow> error + ptext" where
  "join_text sep ts =
     (if list_ex is_unicode ts then
        (if list_all (\<lambda>t. is_unicode t \<or> ascii_text (content t)) ts
         then Inr (Uni (join sep (map content ts)))
         else Inl UnicodeDecodeError)
      else Inr (Str (join sep (map content ts))))"

text \<open>The values of a list comprehension, or the first exception one of them raises.\<close>

fun collect :: "(error + 'a) list \<Rightarrow> error + 'a list" where
  "collect [] = Inr []"
| "collect (x # xs) =
     (case x of
        Inl e \<Rightarrow> Inl e
      | Inr v \<Rightarrow> (case collect xs of Inl e \<Rightarrow> Inl e | Inr vs \<Rightarrow> Inr (v # vs)))"

subsection \<open>The UTF-8 codec\<close>

text \<open>
  \<^verbatim>\<open>s.decode('utf-8')\<close> of Python 2: the code points of a byte string, or \<open>None\<close>
  when it raises \<^verbatim>\<open>UnicodeDecodeError\<close>.  A sequence of two bytes begins with
  \<^verbatim>\<open>C2..DF\<close>, one of three with \<^verbatim>\<open>E0..EF\<close>, one of four with \<^verbatim>\<open>F0..F4\<close>; the
  other bytes of a sequence are continuation bytes \<^verbatim>\<open>80..BF\<close>; an overlong form and
  a code point above \<^verbatim>\<open>10FFFF\<close> are refused, a surrogate is accepted.
\<close>

definition cont :: "char \<Rightarrow> bool" where
  "cont c = (128 \<le> (of_char c :: nat) \<and> (of_char c :: nat) < 192)"

definition low6 :: "char \<Rightarrow> nat" where
  "low6 c = of_char c mod 64"

fun utf8_decode :: "string \<Rightarrow> nat list option" where
  "utf8_decode [] = Some []"
| "utf8_decode (c # cs) =
     (let b = (of_char c :: nat) in
      if b < 128 then map_option (\<lambda>u. b # u) (utf8_decode cs)
      else if 194 \<le> b \<and> b < 224 then
        (case cs of
           c1 # r \<Rightarrow>
             if cont c1
             then map_option (\<lambda>u. ((b - 192) * 64 + low6 c1) # u) (utf8_decode r)
             else None
         | _ \<Rightarrow> None)
      else if 224 \<le> b \<and> b < 240 then
        (case cs of
           c1 # c2 # r \<Rightarrow>
             if cont c1 \<and> cont c2 \<and> \<not> (b = 224 \<and> (of_char c1 :: nat) < 160)
             then map_option (\<lambda>u. ((b - 224) * 4096 + low6 c1 * 64 + low6 c2) # u) (utf8_decode r)
             else None
         | _ \<Rightarrow> None)
      else if 240 \<le> b \<and> b < 245 then
        (case cs of
           c1 # c2 # c3 # r \<Rightarrow>
             if cont c1 \<and> cont c2 \<and> cont c3 \<and> \<not> (b = 240 \<and> (of_char c1 :: nat) < 144) \<and>
                \<not> (b = 244 \<and> 143 < (of_char c1 :: nat))
             then map_option
                    (\<lambda>u. ((b - 240) * 262144 + low6 c1 * 4096 + low6 c2 * 64 + low6 c3) # u)
                    (utf8_decode r)
             else None
         | _ \<Rightarrow> None)
      else None)"

text \<open>
  \<^verbatim>\<open>u.encode('utf-8')\<close> of Python 2, which never raises: one to four bytes for a code
  point, and the four bytes of the code point they stand for when a high surrogate is
  followed by a low one.
\<close>

definition three_bytes :: "nat \<Rightarrow> string" where
  "three_bytes n = [char_of (224 + n div 4096), char_of (128 + n div 64 mod 64), char_of (128 + n mod 64)]"

definition four_bytes :: "nat \<Rightarrow> string" where
  "four_bytes n =
     [char_of (240 + n div 262144), char_of (128 + n div 4096 mod 64),
      char_of (128 + n div 64 mod 64), char_of (128 + n mod 64)]"

fun utf8_encode :: "nat list \<Rightarrow> string" where
  "utf8_encode [] = []"
| "utf8_encode (n # ns) =
     (if n < 128 then char_of n # utf8_encode ns
      else if n < 2048 then char_of (192 + n div 64) # char_of (128 + n mod 64) # utf8_encode ns
      else if n < 65536 then
        (case ns of
           m # ms \<Rightarrow>
             if 55296 \<le> n \<and> n \<le> 56319 \<and> 56320 \<le> m \<and> m \<le> 57343
             then four_bytes ((n - 55296) * 1024 + (m - 56320) + 65536) @ utf8_encode ms
             else three_bytes n @ utf8_encode ns
         | [] \<Rightarrow> three_bytes n)
      else four_bytes n @ utf8_encode ns)"

text \<open>
  \<^verbatim>\<open>urllib.unquote\<close> of a unicode object: an escape becomes the code point of its
  value, that is, the byte read as Latin-1.
\<close>

fun unquote_unicode :: "string \<Rightarrow> string" where
  "unquote_unicode (c # a # b # rest) =
     (if c = CHR ''%'' \<and> is_hex a \<and> is_hex b
      then utf8_encode [16 * hexval a + hexval b] @ unquote_unicode rest
      else c # unquote_unicode (a # b # rest))"
| "unquote_unicode cs = cs"

subsection \<open>Decoding, encoding and recoding\<close>

text \<open>
  \<^verbatim>\<open>uri_decode\<close> tries \<^verbatim>\<open>urllib.unquote(text.encode('utf-8')).decode('utf-8')\<close> and
  falls back to \<^verbatim>\<open>urllib.unquote(text)\<close> when that raises.  On a \<^verbatim>\<open>str\<close>,
  \<^verbatim>\<open>encode\<close> raises when the text is not ASCII and \<^verbatim>\<open>decode\<close> when the unquoted
  bytes are not UTF-8: the result is then the unquoted byte string, otherwise the
  unicode object decoded from it.  On a unicode object only \<^verbatim>\<open>decode\<close> can raise, and
  the fallback unquotes the unicode object.
\<close>

definition uri_decode :: "ptext \<Rightarrow> ptext" where
  "uri_decode text =
     (case text of
        Str s \<Rightarrow>
          (if ascii_text s then
             (case utf8_decode (unquote s) of
                Some u \<Rightarrow> Uni (utf8_encode u)
              | None \<Rightarrow> Str (unquote s))
           else Str (unquote s))
      | Uni s \<Rightarrow>
          (case utf8_decode (unquote s) of
             Some u \<Rightarrow> Uni (utf8_encode u)
           | None \<Rightarrow> Uni (unquote_unicode s)))"

text \<open>
  \<^verbatim>\<open>uri_encode\<close> tries \<^verbatim>\<open>urllib.quote(text.encode('utf-8'), safechars).decode('utf-8')\<close>
  and falls back to \<^verbatim>\<open>urllib.quote(text, safechars)\<close>.  Only \<^verbatim>\<open>encode\<close> can raise,
  on a \<^verbatim>\<open>str\<close> that is not ASCII; what \<^verbatim>\<open>quote\<close> returns is ASCII.
\<close>

definition uri_encode :: "ptext \<Rightarrow> string \<Rightarrow> ptext" where
  "uri_encode text safechars =
     (case text of
        Str s \<Rightarrow> if ascii_text s then Uni (quote s safechars) else Str (quote s safechars)
      | Uni s \<Rightarrow> Uni (quote s safechars))"

text \<open>\<^verbatim>\<open>queryStems = (?:^|&)([^=]+)=([^&]+)\<close>, tried where the key would start.\<close>

definition queryStems_at :: "string \<Rightarrow> (string \<times> string \<times> string) option" where
  "queryStems_at s =
     (let k = takeWhile (\<lambda>c. c \<noteq> CHR ''='') s;
          r = dropWhile (\<lambda>c. c \<noteq> CHR ''='') s
      in if k = [] \<or> r = [] then None
         else let v = takeWhile (\<lambda>c. c \<noteq> CHR ''&'') (tl r)
              in if v = [] then None
                 else Some (k, v, dropWhile (\<lambda>c. c \<noteq> CHR ''&'') (tl r)))"

text \<open>
  \<^verbatim>\<open>queryStems.split\<close> past the start of the text: a match begins at an \<^verbatim>\<open>&\<close>.
  The result lists the text before the match, the key, the value, and so on.
\<close>

function queryStems_scan :: "string \<Rightarrow> string list" where
  "queryStems_scan [] = [[]]"
| "queryStems_scan (c # cs) =
     (if c = CHR ''&'' then
        (case queryStems_at cs of
           Some (k, v, rest) \<Rightarrow> [] # k # v # queryStems_scan rest
         | None \<Rightarrow> prepend c (queryStems_scan cs))
      else prepend c (queryStems_scan cs))"
  by pat_completeness auto
termination
proof (relation "measure length")
  fix c :: char and cs x2 x y ya z
  assume "queryStems_at cs = Some x2" and "(x, y) = x2" and "(ya, z) = y"
  then have z: "z = dropWhile (\<lambda>c. c \<noteq> CHR ''&'') (tl (dropWhile (\<lambda>c. c \<noteq> CHR ''='') cs))"
    by (auto simp: queryStems_at_def Let_def split: if_splits)
  have "length z \<le> length (tl (dropWhile (\<lambda>c. c \<noteq> CHR ''='') cs))"
    unfolding z by (rule length_dropWhile_le)
  also have "\<dots> \<le> length (dropWhile (\<lambda>c. c \<noteq> CHR ''='') cs)"
    by simp
  also have "\<dots> \<le> length cs"
    by (rule length_dropWhile_le)
  finally show "(z, c # cs) \<in> measure length"
    by simp
qed auto

definition queryStems_split :: "string \<Rightarrow> string list" where
  "queryStems_split s =
     (case queryStems_at s of
        Some (k, v, rest) \<Rightarrow> [] # k # v # queryStems_scan rest
      | None \<Rightarrow> queryStems_scan s)"

text \<open>\<^verbatim>\<open>uri_recode\<close> with \<^verbatim>\<open>query=False\<close>.\<close>

definition uri_recode_text :: "ptext \<Rightarrow> string \<Rightarrow> ptext" where
  "uri_recode_text text safechars = uri_encode (uri_decode text) safechars"

text \<open>The elements of the split are slices of the query.\<close>

definition uri_recode_query :: "ptext \<Rightarrow> error + ptext" where
  "uri_recode_query query =
     (let elements = queryStems_split (content query) in
      if length elements = 1 then Inr (uri_recode_text query [])
      else
        (case collect
                (map (\<lambda>i. join_text ''=''
                             [uri_recode_text (like query (elements ! (1 + 3 * i))) [],
                              uri_recode_text (like query (elements ! (2 + 3 * i))) []])
                     [0 ..< length (tl elements) div 3]) of
           Inl e \<Rightarrow> Inl e
         | Inr pairs \<Rightarrow> join_text ''&'' pairs))"

definition uri_recode :: "ptext \<Rightarrow> string \<Rightarrow> bool \<Rightarrow> error + ptext" where
  "uri_recode text safechars query =
     (if query then uri_recode_query text else Inr (uri_recode_text text safechars))"

section \<open>Stem grammar\<close>

text \<open>\<^verbatim>\<open>[shtpqf]:\<close> at the head of a text.\<close>

definition stem_marker :: "string \<Rightarrow> bool" where
  "stem_marker cs = (case cs of k # d # _ \<Rightarrow> k \<in> set ''shtpqf'' \<and> d = CHR '':'' | _ \<Rightarrow> False)"

text \<open>
  \<^verbatim>\<open>lruStems = (?:^|\|)([shtpqf]):\<close>.  \<open>lruStems_scan\<close> is \<^verbatim>\<open>lruStems.split\<close> past
  the start of the text, where a match begins at a pipe; \<open>lruStems_split\<close> also tries
  the match at the start.  The result lists the text before the first match, the
  type letter of the match, the text up to the next match, and so on.
\<close>

fun lruStems_scan :: "string \<Rightarrow> string list" where
  "lruStems_scan [] = [[]]"
| "lruStems_scan (c # cs) =
     (if c = CHR ''|'' \<and> stem_marker cs then [] # [hd cs] # lruStems_scan (drop 2 cs)
      else prepend c (lruStems_scan cs))"

definition lruStems_split :: "string \<Rightarrow> string list" where
  "lruStems_split s =
     (if stem_marker s then [] # [hd s] # lruStems_scan (drop 2 s) else lruStems_scan s)"

text \<open>\<^verbatim>\<open>\[[\da-f]*:[\da-f:]*\]\<close> at the head of a text: the literal and what follows it.\<close>

definition ipv6_prefix :: "string \<Rightarrow> (string \<times> string) option" where
  "ipv6_prefix s =
     (case s of
        [] \<Rightarrow> None
      | b # r1 \<Rightarrow>
          let h1 = takeWhile is_hex r1; r2 = dropWhile is_hex r1 in
          if b \<noteq> CHR ''['' \<or> r2 = [] \<or> hd r2 \<noteq> CHR '':'' then None
          else let h2 = takeWhile (\<lambda>c. is_hex c \<or> c = CHR '':'') (tl r2);
                   r3 = dropWhile (\<lambda>c. is_hex c \<or> c = CHR '':'') (tl r2)
               in if r3 = [] \<or> hd r3 \<noteq> CHR '']'' then None
                  else Some (b # h1 @ CHR '':'' # h2 @ '']'', tl r3))"

text \<open>\<^verbatim>\<open>\d{1,3}\.\<close> at the head of a text: what follows it.\<close>

definition octet_dot :: "string \<Rightarrow> string option" where
  "octet_dot s =
     (let d = takeWhile is_digit s; r = dropWhile is_digit s in
      if 1 \<le> length d \<and> length d \<le> 3 \<and> r \<noteq> [] \<and> hd r = CHR ''.'' then Some (tl r) else None)"

definition ipv4_prefix :: "string \<Rightarrow> bool" where
  "ipv4_prefix s =
     (case octet_dot s of
        None \<Rightarrow> False
      | Some r1 \<Rightarrow>
          (case octet_dot r1 of
             None \<Rightarrow> False
           | Some r2 \<Rightarrow>
               (case octet_dot r2 of
                  None \<Rightarrow> False
                | Some r3 \<Rightarrow> r3 \<noteq> [] \<and> is_digit (hd r3))))"

text \<open>
  \<^verbatim>\<open>special_hosts.match\<close> for
  \<^verbatim>\<open>localhost|(\d{1,3}\.){3}\d{1,3}|\[[\da-f]*:[\da-f:]*\]\<close> under \<^verbatim>\<open>re.I\<close>: the
  pattern is tried at the start of the text and need not reach its end.
\<close>

definition special_hosts_match :: "string \<Rightarrow> bool" where
  "special_hosts_match s =
     (lower (take 9 s) = ''localhost'' \<or> ipv4_prefix s \<or> ipv6_prefix s \<noteq> None)"

type_synonym stem = "string \<times> string \<times> string"

definition stems_of :: "string list \<Rightarrow> stem list" where
  "stems_of elements =
     map (\<lambda>i. (elements ! (1 + 2 * i), elements ! (2 + 2 * i),
                elements ! (1 + 2 * i) @ '':'' @ elements ! (2 + 2 * i)))
         [0 ..< length (tl elements) div 2]"

text \<open>
  \<^verbatim>\<open>split_lru_in_stems(lru, check)\<close>.  The guard reads \<^verbatim>\<open>elements[4]\<close> whenever
  \<open>check\<close> holds and the text does not show \<^verbatim>\<open>s\<close> as its first and \<^verbatim>\<open>h\<close> as its
  third stem type; with a single stem that index is out of range.
\<close>

definition split_lru_in_stems :: "string \<Rightarrow> bool \<Rightarrow> error + stem list" where
  "split_lru_in_stems lru check =
     (let elements = lruStems_split (rstrip lru ''|'') in
      if \<not> check \<and> length elements < 2 then Inr []
      else if length elements < 2 \<or> elements ! 0 \<noteq> [] then Inl ValueError
      else if check \<and> (length elements < 6 \<or> elements ! 1 \<noteq> ''s'' \<or> elements ! 5 \<noteq> ''h'')
      then (if length elements < 5 then Inl IndexError
            else if \<not> special_hosts_match (elements ! 4) then Inl ValueError
            else Inr (stems_of elements))
      else Inr (stems_of elements))"

text \<open>The loop of \<^verbatim>\<open>lru_parent_prefixes\<close>: render, then drop the last stem.\<close>

function parent_loop :: "string list \<Rightarrow> string list" where
  "parent_loop lru_arr =
     (if lru_arr = [] then []
      else (join ''|'' lru_arr @ ''|'') # parent_loop (butlast lru_arr))"
  by pat_completeness auto
termination
  by (relation "measure length") auto

definition lru_parent_prefixes :: "string \<Rightarrow> error + string list" where
  "lru_parent_prefixes lru =
     (case split_lru_in_stems lru True of
        Inl e \<Rightarrow> Inl e
      | Inr stems \<Rightarrow>
          let lru_arr = map (\<lambda>(_, _, k). k) stems in
          if lru_arr = [] then Inl IndexError else Inr (parent_loop (butlast lru_arr)))"

definition add_trailing_pipe :: "string \<Rightarrow> string" where
  "add_trailing_pipe lru = (if \<not> endswith lru ''|'' then lru @ ''|'' else lru)"

section \<open>URL to LRU\<close>

text \<open>
  \<^verbatim>\<open>lruFullPattern = ^([^:/?#]+):(?://([^/?#]*))?([^?#]*)(?:\?([^#]*))?(?:#(.*))?$\<close>.
  Every class stops at the first character it excludes, so the match is unique; the
  groups of an absent authority, query or fragment are \<open>None\<close>.  The fragment is
  read with \<^verbatim>\<open>.\<close>, which stops at a line feed.
\<close>

definition lruFullPattern_match ::
  "string \<Rightarrow> (string \<times> string option \<times> string \<times> string option \<times> string option) option" where
  "lruFullPattern_match url =
     (let scheme = takeWhile (\<lambda>c. c \<notin> set '':/?#'') url;
          r0 = dropWhile (\<lambda>c. c \<notin> set '':/?#'') url
      in if scheme = [] \<or> r0 = [] \<or> hd r0 \<noteq> CHR '':'' then None
         else
           let r1 = tl r0;
               authority = (if startswith r1 ''//''
                            then Some (takeWhile (\<lambda>c. c \<notin> set ''/?#'') (drop 2 r1)) else None);
               r2 = (if startswith r1 ''//''
                     then dropWhile (\<lambda>c. c \<notin> set ''/?#'') (drop 2 r1) else r1);
               path = takeWhile (\<lambda>c. c \<notin> set ''?#'') r2;
               r3 = dropWhile (\<lambda>c. c \<notin> set ''?#'') r2;
               query = (if r3 \<noteq> [] \<and> hd r3 = CHR ''?''
                        then Some (takeWhile (\<lambda>c. c \<noteq> CHR ''#'') (tl r3)) else None);
               r4 = (if r3 \<noteq> [] \<and> hd r3 = CHR ''?''
                     then dropWhile (\<lambda>c. c \<noteq> CHR ''#'') (tl r3) else r3)
           in if r4 = [] then Some (scheme, authority, path, query, None)
              else if at_end (dropWhile (\<lambda>c. c \<noteq> CHR 0x0A) (tl r4))
              then Some (scheme, authority, path, query,
                         Some (takeWhile (\<lambda>c. c \<noteq> CHR 0x0A) (tl r4)))
              else None)"

text \<open>\<^verbatim>\<open>lruSchemePattern.match\<close> for \<^verbatim>\<open>https?\<close>: tried at the start, with no end anchor.\<close>

definition lruSchemePattern_match :: "string \<Rightarrow> bool" where
  "lruSchemePattern_match scheme = startswith scheme ''http''"

text \<open>\<^verbatim>\<open>(?::(\d+))?$\<close>: the port group, when the text ends there.\<close>

definition port_end :: "string \<Rightarrow> string option option" where
  "port_end r =
     (if r \<noteq> [] \<and> hd r = CHR '':'' \<and> takeWhile is_digit (tl r) \<noteq> [] \<and>
         at_end (dropWhile is_digit (tl r))
      then Some (Some (takeWhile is_digit (tl r)))
      else if at_end r then Some None else None)"

text \<open>\<^verbatim>\<open>[^\s:]+(?::(\d+))?$\<close>: host and port.\<close>

definition plain_host_port :: "string \<Rightarrow> (string \<times> string option) option" where
  "plain_host_port r =
     (let h = takeWhile (\<lambda>c. \<not> is_space c \<and> c \<noteq> CHR '':'') r in
      if h = [] then None
      else (case port_end (dropWhile (\<lambda>c. \<not> is_space c \<and> c \<noteq> CHR '':'') r) of
              None \<Rightarrow> None
            | Some p \<Rightarrow> Some (h, p)))"

text \<open>\<^verbatim>\<open>(\[[\da-f]*:[\da-f:]*\]|[^\s:]+)(?::(\d+))?$\<close>: the bracketed literal first.\<close>

definition host_port_match :: "string \<Rightarrow> (string \<times> string option) option" where
  "host_port_match r =
     (case ipv6_prefix r of
        None \<Rightarrow> plain_host_port r
      | Some (h, rest) \<Rightarrow>
          (case port_end rest of None \<Rightarrow> plain_host_port r | Some p \<Rightarrow> Some (h, p)))"

fun first_match :: "string list \<Rightarrow> (string \<times> string option) option" where
  "first_match [] = None"
| "first_match (r # rs) = (case host_port_match r of None \<Rightarrow> first_match rs | Some m \<Rightarrow> Some m)"

text \<open>
  \<^verbatim>\<open>lruAuthorityPattern =
  ^(?:([^:]+)(?::([^@]+))?\@)?(\[[\da-f]*:[\da-f:]*\]|[^\s:]+)(?::(\d+))?$\<close> under
  \<^verbatim>\<open>re.I\<close>; the result is the pair of the host and port groups.  The user
  information is tried, in the order of the backtracking, as the longest run without
  a colon followed by a colon, a password and an at sign; then as the text before an
  at sign of that run, the rightmost first; then as absent.
\<close>

definition lruAuthorityPattern_match :: "string \<Rightarrow> (string \<times> string option) option" where
  "lruAuthorityPattern_match s =
     (let run = takeWhile (\<lambda>c. c \<noteq> CHR '':'') s;
          r = dropWhile (\<lambda>c. c \<noteq> CHR '':'') s;
          with_password =
            (if run \<noteq> [] \<and> r \<noteq> [] \<and> takeWhile (\<lambda>c. c \<noteq> CHR ''@'') (tl r) \<noteq> [] \<and>
                dropWhile (\<lambda>c. c \<noteq> CHR ''@'') (tl r) \<noteq> []
             then [tl (dropWhile (\<lambda>c. c \<noteq> CHR ''@'') (tl r))] else []);
          user_only = map (\<lambda>j. drop (Suc j) s)
                          (filter (\<lambda>j. run ! j = CHR ''@'') (rev [1 ..< length run]))
      in first_match (with_password @ user_only @ [s]))"

text \<open>
  \<^verbatim>\<open>url_to_lru\<close>.  The groups of the patterns are slices of \<open>url\<close>; the port written
  for a URL without one is a \<^verbatim>\<open>str\<close>.  With \<open>encode_utf8\<close> the result is encoded to a
  \<^verbatim>\<open>str\<close>; when that raises, on a \<^verbatim>\<open>str\<close> that is not ASCII, the text itself is
  returned, the same \<^verbatim>\<open>str\<close>.
\<close>

definition url_to_lru :: "ptext \<Rightarrow> bool \<Rightarrow> error + ptext" where
  "url_to_lru url encode_utf8 =
     (case lruFullPattern_match (content url) of
        None \<Rightarrow> Inl ValueError
      | Some (scheme, authority, path, query, fragment) \<Rightarrow>
          if lruSchemePattern_match scheme \<and> authority \<noteq> None \<and> authority \<noteq> Some [] then
            (case lruAuthorityPattern_match (the authority) of
               None \<Rightarrow> Inl ValueError
             | Some (host, port) \<Rightarrow>
                 let host = (if special_hosts_match host then [host]
                             else split_on (CHR ''.'') (lower host));
                     host = rev host;
                     tokens = [like url (''s:'' @ lower scheme),
                               (if port \<noteq> None \<and> port \<noteq> Some [] then like url (''t:'' @ the port)
                                else Str (''t:'' @ (if scheme = ''https'' then ''443'' else ''80'')))];
                     tokens = (if host \<noteq> []
                               then tokens @ map (\<lambda>stem. like url (''h:'' @ stem))
                                                 (filter (\<lambda>stem. stem \<noteq> []) host)
                               else tokens)
                 in
                 (case (if path \<noteq> [] then
                          (case uri_recode (like url path) ''/+'' False of
                             Inl e \<Rightarrow> Inl e
                           | Inr path \<Rightarrow>
                               let path = (if content path \<noteq> [] \<and> startswith (content path) ''/''
                                           then like path (tl (content path)) else path)
                               in Inr (tokens @ map (\<lambda>stem. like path (''p:'' @ stem))
                                                    (split_on (CHR ''/'') (content path))))
                        else Inr tokens) of
                    Inl e \<Rightarrow> Inl e
                  | Inr tokens \<Rightarrow>
                      (case (case query of
                               None \<Rightarrow> Inr tokens
                             | Some q \<Rightarrow>
                                 (case uri_recode_query (like url q) of
                                    Inl e \<Rightarrow> Inl e
                                  | Inr r \<Rightarrow> Inr (tokens @ [like r (''q:'' @ content r)]))) of
                         Inl e \<Rightarrow> Inl e
                       | Inr tokens \<Rightarrow>
                           (case (case fragment of
                                    None \<Rightarrow> Inr tokens
                                  | Some f \<Rightarrow>
                                      (case uri_recode (like url f) [] False of
                                         Inl e \<Rightarrow> Inl e
                                       | Inr r \<Rightarrow> Inr (tokens @ [like r (''f:'' @ content r)]))) of
                              Inl e \<Rightarrow> Inl e
                            | Inr tokens \<Rightarrow>
                                (case join_text ''|'' tokens of
                                   Inl e \<Rightarrow> Inl e
                                 | Inr res_lru \<Rightarrow>
                                     if encode_utf8 then Inr (Str (add_trailing_pipe (content res_lru)))
                                     else Inr (like res_lru (add_trailing_pipe (content res_lru))))))))
          else Inl ValueError)"

section \<open>Canonicalization pipeline\<close>

text \<open>
  \<^verbatim>\<open>lru_strip_standard_ports\<close>, \<^verbatim>\<open>lru_lowerize_host\<close> and
  \<^verbatim>\<open>lru_strip_host_trailing_slash\<close> build their result from slices of their argument
  and the literal pipe, so it has the kind of the argument; they are modelled on the
  content.  (The join of no stem at all is a \<^verbatim>\<open>str\<close> of any argument; the pass that
  follows in \<^verbatim>\<open>lru_clean\<close> then raises.)
\<close>

definition lru_strip_standard_ports :: "string \<Rightarrow> error + string" where
  "lru_strip_standard_ports lru =
     (case split_lru_in_stems lru False of
        Inl e \<Rightarrow> Inl e
      | Inr stems \<Rightarrow>
          Inr (add_trailing_pipe
                 (join ''|'' (map (\<lambda>(_, _, stem). stem)
                                  (filter (\<lambda>(_, _, stem). stem \<notin> set [''t:80'', ''t:443'']) stems)))))"

definition lru_lowerize_host :: "string \<Rightarrow> error + string" where
  "lru_lowerize_host lru =
     (case split_lru_in_stems lru True of
        Inl e \<Rightarrow> Inl e
      | Inr stems \<Rightarrow>
          Inr (add_trailing_pipe
                 (join ''|'' (map (\<lambda>(k, _, stem). if k \<in> set [''s'', ''h''] then lower stem else stem)
                                  stems))))"

text \<open>
  \<^verbatim>\<open>re_host_trailing_slash = (h:[^\|]*)\|p:\|?$\<close> tried at the head of a text: the
  first group, and what is left of the text after the match (nothing, or a final
  line feed).
\<close>

definition re_host_trailing_slash_at :: "string \<Rightarrow> (string \<times> string) option" where
  "re_host_trailing_slash_at s =
     (if startswith s ''h:'' then
        let body = takeWhile (\<lambda>c. c \<noteq> CHR ''|'') (drop 2 s);
            r1 = dropWhile (\<lambda>c. c \<noteq> CHR ''|'') (drop 2 s)
        in if startswith r1 ''|p:'' then
             let r2 = drop 3 r1;
                 r3 = (if startswith r2 ''|'' then tl r2 else r2)
             in if at_end r3 then Some (''h:'' @ body, r3) else None
           else None
      else None)"

text \<open>\<^verbatim>\<open>re_host_trailing_slash.sub(r'\1', lru)\<close>: the leftmost match gives way to its group.\<close>

fun re_host_trailing_slash_sub :: "string \<Rightarrow> string" where
  "re_host_trailing_slash_sub [] = []"
| "re_host_trailing_slash_sub (c # cs) =
     (case re_host_trailing_slash_at (c # cs) of
        Some (g, rest) \<Rightarrow> g @ rest
      | None \<Rightarrow> c # re_host_trailing_slash_sub cs)"

definition lru_strip_host_trailing_slash :: "string \<Rightarrow> string" where
  "lru_strip_host_trailing_slash lru = re_host_trailing_slash_sub lru"

text \<open>
  \<^verbatim>\<open>lru_uriencode\<close>.  The stems are slices of \<open>lru\<close>; the value of a p, q or f stem
  is recoded and put after its type letter by \<^verbatim>\<open>"%s:%s" % (k, ...)\<close>.
\<close>

definition lru_uriencode :: "ptext \<Rightarrow> error + ptext" where
  "lru_uriencode lru =
     (case split_lru_in_stems (content lru) True of
        Inl e \<Rightarrow> Inl e
      | Inr stems \<Rightarrow>
          (case collect
                  (map (\<lambda>(k, t, stem).
                          if k \<in> set [''p'', ''q'', ''f'']
                          then (case uri_recode (like lru t) (if k = ''p'' then ''/+'' else []) (k = ''q'') of
                                  Inl e \<Rightarrow> Inl e
                                | Inr r \<Rightarrow> join_text '':'' [like lru k, r])
                          else Inr (like lru stem))
                       stems) of
             Inl e \<Rightarrow> Inl e
           | Inr stems \<Rightarrow>
               (case join_text ''|'' stems of
                  Inl e \<Rightarrow> Inl e
                | Inr r \<Rightarrow> Inr (like r (add_trailing_pipe (content r))))))"

definition lru_clean :: "ptext \<Rightarrow> error + ptext" where
  "lru_clean lru =
     (case lru_strip_standard_ports (content lru) of
        Inl e \<Rightarrow> Inl e
      | Inr l1 \<Rightarrow>
          (case lru_lowerize_host l1 of
             Inl e \<Rightarrow> Inl e
           | Inr l2 \<Rightarrow>
               (case lru_uriencode (like lru (lru_strip_host_trailing_slash l2)) of
                  Inl e \<Rightarrow> Inl e
                | Inr l3 \<Rightarrow> Inr (like l3 (add_trailing_pipe (content l3))))))"

definition url_to_lru_clean :: "ptext \<Rightarrow> bool \<Rightarrow> error + ptext" where
  "url_to_lru_clean url encode_utf8 =
     (case url_to_lru url encode_utf8 of Inl e \<Rightarrow> Inl e | Inr lru \<Rightarrow> lru_clean lru)"

section \<open>LRU to URL\<close>

text \<open>
  \<^verbatim>\<open>lruPattern.match\<close> for \<^verbatim>\<open>^s:[^|]+(\|t:[^|]+)?(\|h:[^|]+)+\<close>: a scheme stem, an
  optional port stem and at least one host stem, each with a non-empty value.
\<close>

definition lruPattern_match :: "string \<Rightarrow> bool" where
  "lruPattern_match lru =
     (startswith lru ''s:'' \<and> takeWhile (\<lambda>c. c \<noteq> CHR ''|'') (drop 2 lru) \<noteq> [] \<and>
      (let r = dropWhile (\<lambda>c. c \<noteq> CHR ''|'') (drop 2 lru);
           r' = (if startswith r ''|t:'' \<and> takeWhile (\<lambda>c. c \<noteq> CHR ''|'') (drop 3 r) \<noteq> []
                 then dropWhile (\<lambda>c. c \<noteq> CHR ''|'') (drop 3 r) else r)
       in startswith r' ''|h:'' \<and> takeWhile (\<lambda>c. c \<noteq> CHR ''|'') (drop 3 r') \<noteq> []))"

text \<open>The values of the stems of type \<open>k\<close>, in order.\<close>

definition stems_of_type :: "string \<Rightarrow> (string \<times> string) list \<Rightarrow> string list" where
  "stems_of_type k lru_list = map snd (filter (\<lambda>(k', stem). k' = k) lru_list)"

text \<open>
  \<^verbatim>\<open>lru_to_url\<close>.  The URL is built from slices of \<open>lru\<close> up to the port; the path,
  the query and the fragment are recoded and added with \<^verbatim>\<open>+=\<close>.  With \<open>encode_utf8\<close>
  the result is encoded to a \<^verbatim>\<open>str\<close>, or returned as the \<^verbatim>\<open>str\<close> it is when that
  raises.
\<close>

definition lru_to_url :: "ptext \<Rightarrow> bool \<Rightarrow> bool \<Rightarrow> error + ptext" where
  "lru_to_url lru encode_utf8 nocheck =
     (if \<not> lruPattern_match (content lru) \<and> \<not> nocheck then Inl ValueError
      else
        (case split_lru_in_stems (rstrip (content lru) ''|'') (\<not> nocheck) of
           Inl e \<Rightarrow> Inl e
         | Inr stems \<Rightarrow>
             let lru_list = map (\<lambda>(k, t, _). (k, t)) stems;
                 stem_types = foldl (\<lambda>acc stem. if fst stem \<notin> set acc then acc @ [fst stem] else acc)
                                    [] lru_list
             in if stems_of_type ''s'' lru_list = [] then Inl IndexError
                else
                  let url = hd (stems_of_type ''s'' lru_list) @ ''://'';
                      url = url @ join ''.'' (rev (stems_of_type ''h'' lru_list));
                      url = (if ''t'' \<in> set stem_types then
                               let port = hd (stems_of_type ''t'' lru_list) in
                               if port \<noteq> [] \<and> port \<noteq> ''80'' \<and> port \<noteq> ''443''
                               then url @ '':'' @ port else url
                             else url);
                      url = like lru url
                  in
                  (case (if ''p'' \<in> set stem_types then
                           let path = join ''/'' (stems_of_type ''p'' lru_list) in
                           if path \<noteq> [] then
                             (case uri_recode (like lru path) ''/+'' False of
                                Inl e \<Rightarrow> Inl e
                              | Inr r \<Rightarrow> join_text [] [url, like r (''/'' @ content r)])
                           else if (''p'', []) \<in> set lru_list then Inr (like url (content url @ ''/''))
                           else Inr url
                         else Inr url) of
                     Inl e \<Rightarrow> Inl e
                   | Inr url \<Rightarrow>
                       (case (if ''q'' \<in> set stem_types then
                                let query = hd (stems_of_type ''q'' lru_list) in
                                if query \<noteq> [] \<or> (''q'', []) \<in> set lru_list then
                                  (case uri_recode_query (like lru query) of
                                     Inl e \<Rightarrow> Inl e
                                   | Inr r \<Rightarrow> join_text [] [url, like r (''?'' @ content r)])
                                else Inr url
                              else Inr url) of
                          Inl e \<Rightarrow> Inl e
                        | Inr url \<Rightarrow>
                            (case (if ''f'' \<in> set stem_types then
                                     let fragment = hd (stems_of_type ''f'' lru_list) in
                                     if fragment \<noteq> [] \<or> (''f'', []) \<in> set lru_list then
                                       (case uri_recode (like lru fragment) [] False of
                                          Inl e \<Rightarrow> Inl e
                                        | Inr r \<Rightarrow> join_text [] [url, like r (''#'' @ content r)])
                                     else Inr url
                                   else Inr url) of
                               Inl e \<Rightarrow> Inl e
                             | Inr url \<Rightarrow> Inr (if encode_utf8 then Str (content url) else url))))))"

section \<open>Node and head resolution\<close>

text \<open>
  \<^verbatim>\<open>re_host_lru = (([sth]:[^|]*(\||$))+)\<close> under \<^verbatim>\<open>re.I\<close>, tried at the head of a
  text.  One round of the group reads a type letter s, t or h of either case, a
  colon, the text up to the next pipe and that pipe, or the rest of the text when no
  pipe is left.  \<open>re_host_lru_run\<close> is the text matched; it is empty when the text
  does not begin with such a token, and then \<^verbatim>\<open>match\<close> returns \<^verbatim>\<open>None\<close>.
\<close>

definition re_host_lru_token :: "string \<Rightarrow> bool" where
  "re_host_lru_token s = (case s of k # d # _ \<Rightarrow> k \<in> set ''sthSTH'' \<and> d = CHR '':'' | _ \<Rightarrow> False)"

function re_host_lru_run :: "string \<Rightarrow> string" where
  "re_host_lru_run s =
     (if \<not> re_host_lru_token s then []
      else if dropWhile (\<lambda>c. c \<noteq> CHR ''|'') s = [] then s
      else takeWhile (\<lambda>c. c \<noteq> CHR ''|'') s @
           CHR ''|'' # re_host_lru_run (tl (dropWhile (\<lambda>c. c \<noteq> CHR ''|'') s)))"
  by pat_completeness auto
termination
proof (relation "measure length")
  fix s :: string
  assume "dropWhile (\<lambda>c. c \<noteq> CHR ''|'') s \<noteq> []"
  then have "length (tl (dropWhile (\<lambda>c. c \<noteq> CHR ''|'') s)) < length (dropWhile (\<lambda>c. c \<noteq> CHR ''|'') s)"
    by simp
  also have "\<dots> \<le> length s"
    by (rule length_dropWhile_le)
  finally show "(tl (dropWhile (\<lambda>c. c \<noteq> CHR ''|'') s), s) \<in> measure length"
    by simp
qed auto

definition re_host_lru_match :: "string \<Rightarrow> string option" where
  "re_host_lru_match lru = (if re_host_lru_run lru = [] then None else Some (re_host_lru_run lru))"

text \<open>The loop of \<^verbatim>\<open>lru_get_head\<close> over the precision exceptions.\<close>

fun head_loop :: "string \<Rightarrow> string list \<Rightarrow> string \<Rightarrow> string" where
  "head_loop lru [] possible_result = possible_result"
| "head_loop lru (precision_exception # rest) possible_result =
     head_loop lru rest
       (if startswith lru precision_exception \<and> length precision_exception > length possible_result
        then precision_exception else possible_result)"

definition lru_get_head :: "string \<Rightarrow> string list \<Rightarrow> error + string" where
  "lru_get_head lru precision_exceptions =
     (let possible_result = head_loop lru precision_exceptions [] in
      if possible_result \<noteq> [] then Inr possible_result
      else (case re_host_lru_match lru of
              None \<Rightarrow> Inl AttributeError
            | Some g \<Rightarrow> Inr (add_trailing_pipe g)))"

definition lru_is_node :: "string \<Rightarrow> int \<Rightarrow> string list \<Rightarrow> string option \<Rightarrow> error + bool" where
  "lru_is_node lru precision_limit precision_exceptions lru_head =
     (case (if lru_head = None \<or> lru_head = Some [] then lru_get_head lru precision_exceptions
            else Inr (the lru_head)) of
        Inl e \<Rightarrow> Inl e
      | Inr head \<Rightarrow>
          (case split_lru_in_stems (replace_all lru head []) False of
             Inl e \<Rightarrow> Inl e
           | Inr stems \<Rightarrow> Inr (int (length stems) \<le> precision_limit)))"

section \<open>Variations\<close>

text \<open>
  \<^verbatim>\<open>lru_variations\<close> assigns \<^verbatim>\<open>lru2\<close> in the two branches of the scheme test only;
  \<open>None\<close> stands for the variable left unassigned, which the next statement reads.
\<close>

definition www_variations :: "ptext \<Rightarrow> ptext option \<Rightarrow> bool \<Rightarrow> error + ptext list" where
  "www_variations url url2 encode_utf8 =
     (let old = (if contains (content url) ''//www.'' then ''//www.'' else ''//'');
          new = (if contains (content url) ''//www.'' then ''//'' else ''//www.'')
      in case url_to_lru_clean (like url (replace_first (content url) old new)) encode_utf8 of
           Inl e \<Rightarrow> Inl e
         | Inr v \<Rightarrow>
             (case url2 of
                None \<Rightarrow> Inr [v]
              | Some u2 \<Rightarrow>
                  if content u2 \<noteq> [] then
                    (case url_to_lru_clean (like u2 (replace_first (content u2) old new)) encode_utf8 of
                       Inl e \<Rightarrow> Inl e
                     | Inr v2 \<Rightarrow> Inr [v, v2])
                  else Inr [v]))"

definition lru_variations :: "ptext \<Rightarrow> bool \<Rightarrow> bool \<Rightarrow> bool \<Rightarrow> error + ptext list" where
  "lru_variations lru https www encode_utf8 =
     (case lru_to_url lru encode_utf8 False of
        Inl e \<Rightarrow> Inl e
      | Inr url \<Rightarrow>
          let lru2 = (if contains (content lru) ''s:http|''
                      then Some (like lru (replace_first (content lru) ''s:http|'' ''s:https|''))
                      else if contains (content lru) ''s:https|''
                      then Some (like lru (replace_first (content lru) ''s:https|'' ''s:http|''))
                      else None)
          in case lru2 of
               None \<Rightarrow> Inl UnboundLocalError
             | Some l2 \<Rightarrow>
                 (case (if content l2 \<noteq> [] then map_sum id Some (lru_to_url l2 encode_utf8 False)
                        else Inr None) of
                    Inl e \<Rightarrow> Inl e
                  | Inr url2 \<Rightarrow>
                      let listLRUs = lru # (if content l2 \<noteq> [] then [l2] else []) in
                      if count_sub (content lru) ''|h:'' = 1 then Inr listLRUs
                      else (case www_variations url url2 encode_utf8 of
                              Inl e \<Rightarrow> Inl e
                            | Inr vs \<Rightarrow> Inr (listLRUs @ vs))))"

section \<open>Structured view of an LRU\<close>

text \<open>
  The properties below speak about an LRU as the data model has it: a sequence of
  stems, each a type letter and a value.  \<open>render\<close> writes the sequence as text,
  every stem followed by a pipe.  These definitions are not part of the code; they
  state what the code is compared with.
\<close>

definition stem_text :: "char \<times> string \<Rightarrow> string" where
  "stem_text st = fst st # CHR '':'' # snd st"

definition render :: "(char \<times> string) list \<Rightarrow> string" where
  "render ss = concat (map (\<lambda>st. stem_text st @ ''|'') ss)"

text \<open>The triple \<^verbatim>\<open>split_lru_in_stems\<close> returns for a stem.\<close>

definition stem_triple :: "char \<times> string \<Rightarrow> stem" where
  "stem_triple st = ([fst st], snd st, stem_text st)"

definition is_stem_type :: "char \<Rightarrow> bool" where
  "is_stem_type k = (k \<in> set ''shtpqf'')"

text \<open>A stem of a known type whose value holds no pipe.\<close>

definition stem_ok :: "char \<times> string \<Rightarrow> bool" where
  "stem_ok st = (is_stem_type (fst st) \<and> CHR ''|'' \<notin> set (snd st))"

text \<open>The elements \<^verbatim>\<open>lruStems.split\<close> yields after the first, and the text of the stems after the first.\<close>

definition elems :: "(char \<times> string) list \<Rightarrow> string list" where
  "elems ss = concat (map (\<lambda>st. [[fst st], snd st]) ss)"

definition tail_text :: "(char \<times> string) list \<Rightarrow> string" where
  "tail_text ss = concat (map (\<lambda>st. CHR ''|'' # stem_text st) ss)"

text \<open>
  The leading run of s, t and h stems of a text, in the words of the spec: cut the
  text at its pipes, keep the leading pieces that begin with the type letter s, t or
  h (of either case, as the pattern is case-insensitive) and a colon, and end each
  with a pipe.
\<close>

definition sth_head :: "string \<Rightarrow> string" where
  "sth_head lru =
     concat (map (\<lambda>t. t @ ''|'') (takeWhile re_host_lru_token (split_on (CHR ''|'') lru)))"

text \<open>
  The well-formed LRU of the data model: one s stem, one t stem, one or more h stems,
  then p stems, at most one q stem and at most one f stem, in this order; no value
  holds a pipe.
\<close>

definition stem_types_ok :: "string \<Rightarrow> bool" where
  "stem_types_ok ks =
     (case ks of
        s # t # hs \<Rightarrow>
          s = CHR ''s'' \<and> t = CHR ''t'' \<and> takeWhile (\<lambda>k. k = CHR ''h'') hs \<noteq> [] \<and>
          dropWhile (\<lambda>k. k = CHR ''p'') (dropWhile (\<lambda>k. k = CHR ''h'') hs) \<in> set [[], ''q'', ''f'', ''qf'']
      | _ \<Rightarrow> False)"

definition wf_lru :: "(char \<times> string) list \<Rightarrow> bool" where
  "wf_lru ss = (stem_types_ok (map fst ss) \<and> list_all (\<lambda>st. CHR ''|'' \<notin> set (snd st)) ss)"

text \<open>
  The prefixes of an LRU that end at a stem boundary and hold at least the scheme
  and the port stem.
\<close>

definition stem_prefixes :: "(char \<times> string) list \<Rightarrow> string list" where
  "stem_prefixes ss = map (\<lambda>n. render (take n ss)) [2 ..< Suc (length ss)]"

section \<open>Auxiliary lemmas\<close>

declare replace_all.simps [simp del] count_sub.simps [simp del] parent_loop.simps [simp del]
  re_host_lru_run.simps [simp del]

subsection \<open>Splitting the text of a sequence of stems\<close>

lemma stem_okD: "stem_ok st \<Longrightarrow> is_stem_type (fst st)" "stem_ok st \<Longrightarrow> CHR ''|'' \<notin> set (snd st)"
  by (simp_all add: stem_ok_def)

lemma stem_marker_Cons [simp]: "stem_marker (k # d # r) = (is_stem_type k \<and> d = CHR '':'')"
  by (simp add: stem_marker_def is_stem_type_def)

lemma stem_marker_short [simp]: "stem_marker [] = False" "stem_marker [c] = False"
  by (simp_all add: stem_marker_def)

lemma startswith_Nil [simp]: "startswith s []"
  by (simp add: startswith_def)

lemma startswith_Cons [simp]: "startswith (c # s) (d # p) = (c = d \<and> startswith s p)"
  by (auto simp: startswith_def)

lemma startswith_Nil_left [simp]: "startswith [] p = (p = [])"
  by (auto simp: startswith_def)

lemma startswith_append_self [simp]: "startswith (p @ s) p"
  by (simp add: startswith_def)

lemma startswith_iff: "startswith s p = (\<exists>r. s = p @ r)"
  by (metis append_eq_conv_conj startswith_def)

lemma lruStems_scan_ne [simp]: "lruStems_scan s \<noteq> []"
  by (induction s rule: lruStems_scan.induct) (auto simp: neq_Nil_conv elim: prepend.elims)

lemma prepend_hd_tl: "ts \<noteq> [] \<Longrightarrow> prepend c ts = (c # hd ts) # tl ts"
  by (cases ts) auto

lemma lruStems_scan_value:
  "CHR ''|'' \<notin> set v \<Longrightarrow> lruStems_scan (v @ r) = (v @ hd (lruStems_scan r)) # tl (lruStems_scan r)"
  by (induction v) (auto simp: prepend_hd_tl)

lemma lruStems_scan_marker:
  "is_stem_type k \<Longrightarrow> lruStems_scan (CHR ''|'' # k # CHR '':'' # r) = [] # [k] # lruStems_scan r"
  by simp

lemma lruStems_scan_tail:
  "list_all stem_ok ss \<Longrightarrow> CHR ''|'' \<notin> set v \<Longrightarrow> lruStems_scan (v @ tail_text ss) = v # elems ss"
proof (induction ss arbitrary: v)
  case Nil
  then show ?case using lruStems_scan_value [of v "[]"] by (simp add: tail_text_def elems_def)
next
  case (Cons st ss)
  have ok: "is_stem_type (fst st)" "CHR ''|'' \<notin> set (snd st)" "list_all stem_ok ss"
    using Cons.prems(1) by (simp_all add: stem_okD)
  have "tail_text (st # ss) = CHR ''|'' # fst st # CHR '':'' # (snd st @ tail_text ss)"
    by (simp add: tail_text_def stem_text_def)
  then have "lruStems_scan (tail_text (st # ss)) = [] # [fst st] # snd st # elems ss"
    using lruStems_scan_marker [OF ok(1)] Cons.IH [OF ok(3) ok(2)] by simp
  then show ?case
    using lruStems_scan_value [OF Cons.prems(2), of "tail_text (st # ss)"] by (simp add: elems_def)
qed

lemma join_stem_texts: "join ''|'' (map stem_text (st # ss)) = stem_text st @ tail_text ss"
  by (induction ss arbitrary: st) (simp_all add: tail_text_def)

lemma lruStems_split_join:
  assumes "list_all stem_ok ss" "ss \<noteq> []"
  shows "lruStems_split (join ''|'' (map stem_text ss)) = [] # elems ss"
proof -
  obtain st ss' where ss: "ss = st # ss'" using assms(2) by (cases ss) auto
  have ok: "is_stem_type (fst st)" "CHR ''|'' \<notin> set (snd st)" "list_all stem_ok ss'"
    using assms(1) by (simp_all add: stem_okD ss)
  have "join ''|'' (map stem_text ss) = fst st # CHR '':'' # (snd st @ tail_text ss')"
    unfolding ss join_stem_texts by (simp add: stem_text_def)
  then show ?thesis
    using ok(1) lruStems_scan_tail [OF ok(3) ok(2)]
    by (simp add: lruStems_split_def ss elems_def)
qed

lemma rstrip_pipe_snoc [simp]: "rstrip (s @ ''|'') ''|'' = rstrip s ''|''"
  by (simp add: rstrip_def)

lemma rstrip_pipe_id: "s = [] \<or> last s \<noteq> CHR ''|'' \<Longrightarrow> rstrip s ''|'' = s"
  by (cases s rule: rev_cases) (simp_all add: rstrip_def)

lemma rstrip_pipe_idem [simp]: "rstrip (rstrip s ''|'') ''|'' = rstrip s ''|''"
  by (simp add: rstrip_def)

lemma last_colon_value: "CHR ''|'' \<notin> set v \<Longrightarrow> last (CHR '':'' # v) \<noteq> CHR ''|''"
  by (cases v rule: rev_cases) auto

lemma tail_text_snoc: "tail_text (ss @ [st]) = tail_text ss @ CHR ''|'' # stem_text st"
  by (simp add: tail_text_def)

lemma last_join_stem_texts:
  assumes "list_all stem_ok ss" "ss \<noteq> []"
  shows "last (join ''|'' (map stem_text ss)) \<noteq> CHR ''|''"
proof -
  obtain ss' st where ss: "ss = ss' @ [st]"
    using assms(2) by (cases ss rule: rev_cases) auto
  have ok: "CHR ''|'' \<notin> set (snd st)"
    using assms(1) by (simp add: ss stem_okD)
  show ?thesis
  proof (cases ss')
    case Nil
    then show ?thesis using last_colon_value [OF ok] by (simp add: ss stem_text_def)
  next
    case (Cons a list)
    have "join ''|'' (map stem_text ss) = stem_text a @ tail_text list @ CHR ''|'' # stem_text st"
      unfolding ss Cons by (simp only: append_Cons join_stem_texts tail_text_snoc)
    then show ?thesis using last_colon_value [OF ok] by (simp add: stem_text_def)
  qed
qed

lemma tail_text_pipe: "tail_text ss @ ''|'' = CHR ''|'' # render ss"
  by (induction ss) (simp_all add: tail_text_def render_def)

lemma render_Nil [simp]: "render [] = []"
  by (simp add: render_def)

lemma render_Cons: "render (st # ss) = stem_text st @ CHR ''|'' # render ss"
  by (simp add: render_def)

lemma render_append: "render (xs @ ys) = render xs @ render ys"
  by (simp add: render_def)

lemma render_join: "ss \<noteq> [] \<Longrightarrow> render ss = join ''|'' (map stem_text ss) @ ''|''"
  by (cases ss) (simp_all only: join_stem_texts render_Cons append_assoc tail_text_pipe, simp)

lemma rstrip_render:
  "list_all stem_ok ss \<Longrightarrow> ss \<noteq> [] \<Longrightarrow> rstrip (render ss) ''|'' = join ''|'' (map stem_text ss)"
  by (simp add: render_join rstrip_pipe_id last_join_stem_texts)

lemma endswith_pipe: "endswith s ''|'' = (s \<noteq> [] \<and> last s = CHR ''|'')"
  by (cases s rule: rev_cases) (simp_all add: endswith_def)

lemma add_trailing_pipe_render [simp]: "add_trailing_pipe (render ss) = (if ss = [] then ''|'' else render ss)"
  by (cases ss rule: rev_cases) (simp_all add: add_trailing_pipe_def endswith_pipe render_append render_Cons)

lemma length_elems [simp]: "length (elems ss) = 2 * length ss"
  by (induction ss) (simp_all add: elems_def)

lemma elems_Cons: "elems (st # ss) = [fst st] # snd st # elems ss"
  by (simp add: elems_def)

lemma stems_of_step: "stems_of (e # a # b # rest) = (a, b, a @ '':'' @ b) # stems_of (e' # rest)"
proof -
  have "[0..<Suc (length rest div 2)] = 0 # map Suc [0..<length rest div 2]"
    by (simp add: upt_conv_Cons map_Suc_upt del: upt_Suc)
  then show ?thesis
    by (simp add: stems_of_def comp_def del: upt_Suc)
qed

lemma stems_of_elems: "stems_of (e # elems ss) = map stem_triple ss"
proof (induction ss)
  case Nil
  then show ?case by (simp add: stems_of_def elems_def)
next
  case (Cons st ss)
  show ?case
    unfolding elems_Cons stems_of_step [where e' = e] Cons.IH
    by (simp add: stem_triple_def stem_text_def)
qed

lemma lruStems_split_Nil [simp]: "lruStems_split [] = [[]]"
  by (simp add: lruStems_split_def)

lemma split_lru_in_stems_False:
  assumes "list_all stem_ok ss" "rstrip t ''|'' = join ''|'' (map stem_text ss)"
  shows "split_lru_in_stems t False = Inr (map stem_triple ss)"
proof (cases "ss = []")
  case True
  then show ?thesis using assms(2) by (simp add: split_lru_in_stems_def)
next
  case False
  have "lruStems_split (rstrip t ''|'') = [] # elems ss"
    using lruStems_split_join [OF assms(1) False] assms(2) by simp
  then show ?thesis
    using False by (simp add: split_lru_in_stems_def Let_def stems_of_elems)
qed

subsection \<open>The leading run of s, t and h stems\<close>

lemma split_on_decomp:
  "split_on c s = takeWhile (\<lambda>x. x \<noteq> c) s #
     (case dropWhile (\<lambda>x. x \<noteq> c) s of [] \<Rightarrow> [] | _ # r \<Rightarrow> split_on c r)"
proof (induction s)
  case Nil
  then show ?case by simp
next
  case (Cons x s)
  then show ?case by (cases "x = c") simp_all
qed

lemma re_host_lru_token_takeWhile:
  "re_host_lru_token (takeWhile (\<lambda>c. c \<noteq> CHR ''|'') s) = re_host_lru_token s"
proof (cases s)
  case Nil
  then show ?thesis by simp
next
  case c1: (Cons k r)
  show ?thesis
  proof (cases r)
    case Nil
    then show ?thesis by (simp add: c1 re_host_lru_token_def)
  next
    case (Cons d r')
    then show ?thesis by (auto simp: c1 re_host_lru_token_def)
  qed
qed

lemma sth_head_unfold:
  "sth_head s =
     (if re_host_lru_token s
      then takeWhile (\<lambda>c. c \<noteq> CHR ''|'') s @ CHR ''|'' #
           (case dropWhile (\<lambda>c. c \<noteq> CHR ''|'') s of [] \<Rightarrow> [] | _ # r \<Rightarrow> sth_head r)
      else [])"
proof (cases "dropWhile (\<lambda>c. c \<noteq> CHR ''|'') s")
  case Nil
  have "split_on (CHR ''|'') s = [takeWhile (\<lambda>c. c \<noteq> CHR ''|'') s]"
    by (subst split_on_decomp) (simp only: Nil list.case)
  then show ?thesis
    by (simp only: sth_head_def Nil list.case) (simp add: re_host_lru_token_takeWhile)
next
  case (Cons x r)
  have "split_on (CHR ''|'') s = takeWhile (\<lambda>c. c \<noteq> CHR ''|'') s # split_on (CHR ''|'') r"
    by (subst split_on_decomp) (simp only: Cons list.case)
  then show ?thesis
    by (simp only: sth_head_def Cons list.case) (simp add: re_host_lru_token_takeWhile)
qed

lemma re_host_lru_run_ne: "re_host_lru_token s \<Longrightarrow> re_host_lru_run s \<noteq> []"
  by (subst re_host_lru_run.simps) (auto simp: re_host_lru_token_def split: list.splits)

lemma add_trailing_pipe_append:
  "r \<noteq> [] \<Longrightarrow> add_trailing_pipe (a @ r) = a @ add_trailing_pipe r"
  by (simp add: add_trailing_pipe_def endswith_pipe)

lemma add_trailing_pipe_pipe [simp]: "add_trailing_pipe (a @ ''|'') = a @ ''|''"
  by (simp add: add_trailing_pipe_def endswith_pipe)

lemma dropWhile_pipe_Cons:
  "dropWhile (\<lambda>c. c \<noteq> CHR ''|'') s = x # r \<Longrightarrow> x = CHR ''|''"
  using hd_dropWhile [of "\<lambda>c. c \<noteq> CHR ''|''" s] by auto

lemma re_host_lru_run_sth_head:
  "re_host_lru_token s \<Longrightarrow> add_trailing_pipe (re_host_lru_run s) = sth_head s"
proof (induction s rule: re_host_lru_run.induct)
  case (1 s)
  let ?d = "dropWhile (\<lambda>c. c \<noteq> CHR ''|'') s"
  let ?v = "takeWhile (\<lambda>c. c \<noteq> CHR ''|'') s"
  show ?case
  proof (cases ?d)
    case Nil
    then have pf: "CHR ''|'' \<notin> set s" by auto
    have ne: "s \<noteq> []" using "1.prems" by (auto simp: re_host_lru_token_def)
    have "last s \<noteq> CHR ''|''" using pf ne last_in_set by metis
    then have a: "add_trailing_pipe s = s @ ''|''"
      by (simp add: add_trailing_pipe_def endswith_pipe)
    have v: "?v = s" using pf by auto
    have r: "re_host_lru_run s = s"
      using "1.prems" Nil by (subst re_host_lru_run.simps) simp
    have "sth_head s = ?v @ ''|''"
      using "1.prems" by (subst sth_head_unfold) (simp only: Nil list.case if_True)
    then show ?thesis
      unfolding r a v by (rule sym)
  next
    case (Cons x r)
    have x: "x = CHR ''|''" using Cons by (rule dropWhile_pipe_Cons)
    have run: "re_host_lru_run s = ?v @ CHR ''|'' # re_host_lru_run r"
      using "1.prems" Cons by (subst re_host_lru_run.simps) simp
    have sh: "sth_head s = ?v @ CHR ''|'' # sth_head r"
      using "1.prems" Cons by (subst sth_head_unfold) simp
    show ?thesis
    proof (cases "re_host_lru_token r")
      case True
      have "add_trailing_pipe (re_host_lru_run r) = sth_head r"
        using "1.IH" "1.prems" Cons True by simp
      moreover have "add_trailing_pipe (re_host_lru_run s) =
                       (?v @ ''|'') @ add_trailing_pipe (re_host_lru_run r)"
        unfolding run using add_trailing_pipe_append [OF re_host_lru_run_ne [OF True], of "?v @ ''|''"]
        by simp
      ultimately show ?thesis by (simp add: sh)
    next
      case False
      have "re_host_lru_run r = []"
        using False by (subst re_host_lru_run.simps) simp
      moreover have "sth_head r = []"
        using False by (subst sth_head_unfold) simp
      ultimately show ?thesis
        using add_trailing_pipe_pipe [of ?v] by (simp add: run sh)
    qed
  qed
qed

subsection \<open>The loop over the precision exceptions\<close>

lemma head_loop_inv:
  "(head_loop lru exs pr = pr \<or> (head_loop lru exs pr \<in> set exs \<and> startswith lru (head_loop lru exs pr))) \<and>
   length pr \<le> length (head_loop lru exs pr) \<and>
   list_all (\<lambda>e. startswith lru e \<longrightarrow> length e \<le> length (head_loop lru exs pr)) exs"
proof (induction exs arbitrary: pr)
  case Nil
  then show ?case by simp
next
  case (Cons e exs)
  let ?pr' = "if startswith lru e \<and> length e > length pr then e else pr"
  have IH: "(head_loop lru exs ?pr' = ?pr' \<or>
             (head_loop lru exs ?pr' \<in> set exs \<and> startswith lru (head_loop lru exs ?pr'))) \<and>
            length ?pr' \<le> length (head_loop lru exs ?pr') \<and>
            list_all (\<lambda>e. startswith lru e \<longrightarrow> length e \<le> length (head_loop lru exs ?pr')) exs"
    by (rule Cons.IH)
  have step: "head_loop lru (e # exs) pr = head_loop lru exs ?pr'"
    by simp
  show ?case
    unfolding step using IH by (auto split: if_splits)
qed

lemma head_loop_Nil_iff:
  "head_loop lru exs [] = [] \<longleftrightarrow> \<not> list_ex (\<lambda>e. e \<noteq> [] \<and> startswith lru e) exs"
proof -
  have inv: "list_all (\<lambda>e. startswith lru e \<longrightarrow> length e \<le> length (head_loop lru exs [])) exs"
            "head_loop lru exs [] = [] \<or> (head_loop lru exs [] \<in> set exs \<and> startswith lru (head_loop lru exs []))"
    using head_loop_inv [of lru exs "[]"] by simp_all
  show ?thesis
  proof
    assume "head_loop lru exs [] = []"
    then show "\<not> list_ex (\<lambda>e. e \<noteq> [] \<and> startswith lru e) exs"
      using inv(1) by (auto simp: list_all_iff list_ex_iff)
  next
    assume "\<not> list_ex (\<lambda>e. e \<noteq> [] \<and> startswith lru e) exs"
    then show "head_loop lru exs [] = []"
      using inv(2) by (auto simp: list_ex_iff)
  qed
qed

subsection \<open>Well-formed LRUs\<close>

lemma tail_set: "d \<in> set [[], ''q'', ''f'', ''qf''] \<Longrightarrow> set d \<subseteq> set ''hpqf''"
  by auto

lemma takeWhile_eq_set: "set (takeWhile (\<lambda>k. k = c) xs) \<subseteq> {c}"
  by (induction xs) auto

lemma tail_types:
  assumes "dropWhile (\<lambda>k. k = CHR ''p'') (dropWhile (\<lambda>k. k = CHR ''h'') hs) \<in> set [[], ''q'', ''f'', ''qf'']"
  shows "set hs \<subseteq> set ''hpqf''"
proof -
  define t1 where "t1 = takeWhile (\<lambda>k. k = CHR ''h'') hs"
  define d1 where "d1 = dropWhile (\<lambda>k. k = CHR ''h'') hs"
  define t2 where "t2 = takeWhile (\<lambda>k. k = CHR ''p'') d1"
  define d2 where "d2 = dropWhile (\<lambda>k. k = CHR ''p'') d1"
  have hs: "hs = t1 @ t2 @ d2"
    by (simp add: t1_def d1_def t2_def d2_def)
  have a: "set t1 \<subseteq> {CHR ''h''}"
    unfolding t1_def by (rule takeWhile_eq_set)
  have b: "set t2 \<subseteq> {CHR ''p''}"
    unfolding t2_def by (rule takeWhile_eq_set)
  have "d2 \<in> set [[], ''q'', ''f'', ''qf'']"
    using assms by (simp only: d2_def d1_def)
  then have c: "set d2 \<subseteq> set ''hpqf''"
    by (rule tail_set)
  have "set hs = set t1 \<union> set t2 \<union> set d2"
    unfolding hs by auto
  then show ?thesis
    using a b c by auto
qed

lemma wf_lru_shape:
  assumes "wf_lru ss"
  obtains vs vt rest where "ss = (CHR ''s'', vs) # (CHR ''t'', vt) # rest"
    and "rest \<noteq> []" and "fst (hd rest) = CHR ''h''"
    and "list_all (\<lambda>st. fst st \<in> set ''hpqf'') rest"
    and "list_all stem_ok ss"
proof -
  from assms have t: "stem_types_ok (map fst ss)" and v: "list_all (\<lambda>st. CHR ''|'' \<notin> set (snd st)) ss"
    by (simp_all add: wf_lru_def)
  from t obtain a b rest where ss: "ss = a # b # rest"
    by (cases ss; cases "tl ss") (auto simp: stem_types_ok_def)
  from t have ab: "fst a = CHR ''s''" "fst b = CHR ''t''"
    and h: "takeWhile (\<lambda>k. k = CHR ''h'') (map fst rest) \<noteq> []"
    and d: "dropWhile (\<lambda>k. k = CHR ''p'') (dropWhile (\<lambda>k. k = CHR ''h'') (map fst rest)) \<in> set [[], ''q'', ''f'', ''qf'']"
    by (simp_all add: ss stem_types_ok_def)
  from h have r: "rest \<noteq> []" "fst (hd rest) = CHR ''h''"
    by (cases rest; simp split: if_splits)+
  have ty: "list_all (\<lambda>st. fst st \<in> set ''hpqf'') rest"
    using tail_types [OF d] by (auto simp: list_all_iff)
  have "list_all (\<lambda>st. is_stem_type (fst st)) ss"
    using ty ab by (auto simp: ss list_all_iff is_stem_type_def)
  with v have ok: "list_all stem_ok ss"
    by (simp add: list_all_iff stem_ok_def)
  show ?thesis
    using that [of "snd a" "snd b" rest] ss ab r ty ok by (cases a; cases b) simp
qed

subsection \<open>Removing the head from an LRU\<close>

lemma contains_startswith: "startswith s sub \<Longrightarrow> contains s sub"
  by (cases s) simp_all

lemma contains_iff: "contains s sub = (\<exists>a b. s = a @ sub @ b)"
proof (induction s)
  case Nil
  then show ?case by auto
next
  case (Cons c s)
  show ?case
  proof
    assume "contains (c # s) sub"
    then consider "startswith (c # s) sub" | "contains s sub" by auto
    then show "\<exists>a b. c # s = a @ sub @ b"
    proof cases
      case 1
      then obtain r where "c # s = sub @ r" by (auto simp: startswith_iff)
      then have "c # s = [] @ sub @ r" by simp
      then show ?thesis by blast
    next
      case 2
      then obtain a b where "s = a @ sub @ b" using Cons.IH by auto
      then have "c # s = (c # a) @ sub @ b" by simp
      then show ?thesis by blast
    qed
  next
    assume "\<exists>a b. c # s = a @ sub @ b"
    then obtain a b where ab: "c # s = a @ sub @ b" by auto
    show "contains (c # s) sub"
    proof (cases a)
      case Nil
      then have "startswith (c # s) sub" using ab by (simp add: startswith_iff)
      then show ?thesis by (rule contains_startswith)
    next
      case (Cons x a')
      then have "s = a' @ sub @ b" using ab by simp
      then show ?thesis using Cons.IH by auto
    qed
  qed
qed

lemma replace_all_absent:
  "old \<noteq> [] \<Longrightarrow> \<not> contains s old \<Longrightarrow> replace_all s old new = s"
proof (induction s)
  case Nil
  then show ?case by (subst replace_all.simps) simp
next
  case (Cons c s)
  then show ?case by (subst replace_all.simps) simp
qed

lemma replace_all_prefix:
  "old \<noteq> [] \<Longrightarrow> replace_all (old @ r) old new = new @ replace_all r old new"
  by (subst replace_all.simps) simp

lemma contains_pipe_free:
  "CHR ''|'' \<notin> set v \<Longrightarrow> contains (v @ r) (CHR ''|'' # m) = contains r (CHR ''|'' # m)"
  by (induction v) auto

lemma startswith_render_t:
  "list_all (\<lambda>st. fst st \<in> set ''hpqf'') ss \<Longrightarrow> \<not> startswith (render ss) ''t:''"
  by (cases ss) (auto simp: render_Cons stem_text_def)

lemma no_t_marker:
  "list_all stem_ok ss \<Longrightarrow> list_all (\<lambda>st. fst st \<in> set ''hpqf'') ss \<Longrightarrow> \<not> contains (render ss) ''|t:''"
proof (induction ss)
  case Nil
  then show ?case by simp
next
  case (Cons st ss)
  have pf: "CHR ''|'' \<notin> set (stem_text st)"
    using Cons.prems by (auto simp: stem_text_def stem_ok_def)
  have "contains (render (st # ss)) ''|t:'' = contains (CHR ''|'' # render ss) ''|t:''"
    unfolding render_Cons using contains_pipe_free [OF pf] by simp
  also have "\<dots> = (startswith (render ss) ''t:'' \<or> contains (render ss) ''|t:'')"
    by simp
  finally show ?case
    using Cons startswith_render_t [of ss] by simp
qed

lemma replace_all_head:
  assumes "wf_lru ss" "2 \<le> n"
  shows "replace_all (render ss) (render (take n ss)) [] = render (drop n ss)"
proof -
  from assms(1) obtain vs vt rest where ss: "ss = (CHR ''s'', vs) # (CHR ''t'', vt) # rest"
    and ty: "list_all (\<lambda>st. fst st \<in> set ''hpqf'') rest" and ok: "list_all stem_ok ss"
    by (rule wf_lru_shape)
  obtain m where n: "n = Suc (Suc m)"
    using assms(2) by (metis Suc_le_D numeral_2_eq_2 Suc_le_mono)
  have split: "render ss = render (take n ss) @ render (drop n ss)"
    by (metis append_take_drop_id render_append)
  have h: "render (take n ss) = (stem_text (CHR ''s'', vs)) @ ''|t:'' @ (vt @ CHR ''|'' # render (take m rest))"
    by (simp add: ss n render_Cons stem_text_def)
  then have ne: "render (take n ss) \<noteq> []"
    by (simp add: stem_text_def)
  have "\<not> contains (render (drop n ss)) ''|t:''"
    using no_t_marker [of "drop m rest"] ok ty
    by (simp add: ss n list_all_iff) (meson in_set_dropD)
  then have "\<not> contains (render (drop n ss)) (render (take n ss))"
    unfolding contains_iff h by (metis append.assoc)
  then show ?thesis
    using replace_all_prefix [OF ne, of "render (drop n ss)" "[]"] replace_all_absent [OF ne]
    by (simp add: split [symmetric])
qed

lemma split_on_pipe_free:
  "c \<notin> set v \<Longrightarrow> split_on c (v @ c # r) = v # split_on c r"
  by (induction v) auto

lemma split_on_render:
  "list_all stem_ok ss \<Longrightarrow> split_on (CHR ''|'') (render ss) = map stem_text ss @ [[]]"
proof (induction ss)
  case Nil
  then show ?case by simp
next
  case (Cons st ss)
  have pf: "CHR ''|'' \<notin> set (stem_text st)"
    using Cons.prems by (auto simp: stem_text_def stem_ok_def is_stem_type_def)
  show ?case
    unfolding render_Cons using split_on_pipe_free [OF pf] Cons by simp
qed

lemma re_host_lru_token_stem_text:
  "re_host_lru_token (stem_text st @ r) = (fst st \<in> set ''sthSTH'')"
  by (simp add: re_host_lru_token_def stem_text_def)

lemma sth_head_render:
  assumes "list_all stem_ok ss"
  shows "sth_head (render ss) = render (takeWhile (\<lambda>st. fst st \<in> set ''sth'') ss)"
proof -
  have tok: "re_host_lru_token (stem_text st) = (fst st \<in> set ''sthSTH'')" for st
    using re_host_lru_token_stem_text [of st "[]"] by simp
  have nt: "\<not> re_host_lru_token []"
    by (simp add: re_host_lru_token_def)
  have "takeWhile re_host_lru_token (map stem_text ss @ [[]]) =
          takeWhile re_host_lru_token (map stem_text ss)"
    using nt by (rule takeWhile_tail)
  also have "\<dots> = map stem_text (takeWhile (re_host_lru_token \<circ> stem_text) ss)"
    by (rule takeWhile_map)
  also have "takeWhile (re_host_lru_token \<circ> stem_text) ss = takeWhile (\<lambda>st. fst st \<in> set ''sth'') ss"
  proof (rule takeWhile_cong [OF refl])
    fix st assume "st \<in> set ss"
    then have "is_stem_type (fst st)"
      using assms by (auto simp: list_all_iff stem_ok_def)
    then show "(re_host_lru_token \<circ> stem_text) st = (fst st \<in> set ''sth'')"
      by (auto simp: tok is_stem_type_def)
  qed
  finally have "takeWhile re_host_lru_token (split_on (CHR ''|'') (render ss)) =
                  map stem_text (takeWhile (\<lambda>st. fst st \<in> set ''sth'') ss)"
    by (simp only: split_on_render [OF assms])
  then show ?thesis
    unfolding sth_head_def by (simp only: render_def map_map comp_def)
qed

lemma render_eq_Nil [simp]: "render ss = [] \<longleftrightarrow> ss = []"
  by (cases ss) (simp_all add: render_Cons stem_text_def)

lemma render_take_mono:
  assumes "n < m" "m \<le> length ss"
  shows "length (render (take n ss)) < length (render (take m ss))"
proof -
  have "take m ss = take n ss @ take (m - n) (drop n ss)"
    using assms(1) take_add [of n "m - n" ss] by simp
  moreover have "take (m - n) (drop n ss) \<noteq> []"
    using assms by simp
  ultimately show ?thesis
    by (simp add: render_append)
qed

lemma render_take_inj:
  assumes "n \<le> length ss" "m \<le> length ss" "render (take n ss) = render (take m ss)"
  shows "n = m"
proof (rule ccontr)
  assume "n \<noteq> m"
  then consider "n < m" | "m < n" by arith
  then show False
    using render_take_mono [of n m ss] render_take_mono [of m n ss] assms by cases simp_all
qed

subsection \<open>The head and the node test\<close>

lemma lru_get_head_exception:
  assumes "list_ex (\<lambda>e. e \<noteq> [] \<and> startswith lru e) exs"
  shows "\<exists>r. lru_get_head lru exs = Inr r \<and> r \<in> set exs \<and> r \<noteq> [] \<and> startswith lru r \<and>
           list_all (\<lambda>e. startswith lru e \<longrightarrow> length e \<le> length r) exs"
proof -
  have ne: "head_loop lru exs [] \<noteq> []"
    using assms by (simp add: head_loop_Nil_iff)
  then show ?thesis
    using head_loop_inv [of lru exs "[]"] by (simp add: lru_get_head_def Let_def)
qed

lemma lru_get_head_default:
  assumes "\<not> list_ex (\<lambda>e. e \<noteq> [] \<and> startswith lru e) exs" "re_host_lru_token lru"
  shows "lru_get_head lru exs = Inr (sth_head lru)"
proof -
  have e: "head_loop lru exs [] = []"
    using assms(1) by (simp add: head_loop_Nil_iff)
  show ?thesis
    using e re_host_lru_run_ne [OF assms(2)] re_host_lru_run_sth_head [OF assms(2)]
    by (simp add: lru_get_head_def re_host_lru_match_def)
qed

lemma lru_get_head_wf:
  assumes "wf_lru ss"
    and "list_all (\<lambda>e. e \<noteq> [] \<and> startswith (render ss) e \<longrightarrow> e \<in> set (stem_prefixes ss)) exs"
  shows "\<exists>n. 2 \<le> n \<and> n \<le> length ss \<and> lru_get_head (render ss) exs = Inr (render (take n ss))"
proof (cases "list_ex (\<lambda>e. e \<noteq> [] \<and> startswith (render ss) e) exs")
  case True
  then obtain r where r: "lru_get_head (render ss) exs = Inr r" "r \<in> set exs" "r \<noteq> []"
      "startswith (render ss) r"
    using lru_get_head_exception by blast
  then have "r \<in> set (stem_prefixes ss)"
    using assms(2) by (auto simp: list_all_iff)
  then obtain n where "2 \<le> n" "n \<le> length ss" "r = render (take n ss)"
    by (auto simp: stem_prefixes_def)
  then show ?thesis using r(1) by auto
next
  case False
  from assms(1) obtain vs vt rest where ss: "ss = (CHR ''s'', vs) # (CHR ''t'', vt) # rest"
    and ok: "list_all stem_ok ss"
    by (rule wf_lru_shape)
  have tok: "re_host_lru_token (render ss)"
    by (simp add: ss render_Cons stem_text_def re_host_lru_token_def)
  let ?tw = "takeWhile (\<lambda>st. fst st \<in> set ''sth'') ss"
  have h: "lru_get_head (render ss) exs = Inr (render ?tw)"
    using lru_get_head_default [OF False tok] sth_head_render [OF ok] by simp
  have "?tw = take (length ?tw) ss"
    by (rule takeWhile_eq_take)
  moreover have "2 \<le> length ?tw"
    by (simp add: ss)
  moreover have "length ?tw \<le> length ss"
    by (rule length_takeWhile_le)
  ultimately show ?thesis
    using h by metis
qed

lemma lru_is_node_head:
  assumes "wf_lru ss" "2 \<le> n" "lru_get_head (render ss) exs = Inr (render (take n ss))"
  shows "lru_is_node (render ss) limit exs None = Inr (int (length (drop n ss)) \<le> limit)"
proof -
  from assms(1) have ok: "list_all stem_ok ss"
    by (rule wf_lru_shape)
  then have okd: "list_all stem_ok (drop n ss)"
    by (auto simp: list_all_iff dest: in_set_dropD)
  have "rstrip (render (drop n ss)) ''|'' = join ''|'' (map stem_text (drop n ss))"
  proof (cases "drop n ss = []")
    case True
    then show ?thesis by (simp add: rstrip_def)
  next
    case False
    then show ?thesis using rstrip_render [OF okd] by simp
  qed
  then have "split_lru_in_stems (render (drop n ss)) False = Inr (map stem_triple (drop n ss))"
    by (rule split_lru_in_stems_False [OF okd])
  then show ?thesis
    using replace_all_head [OF assms(1,2)] assms(3) by (simp add: lru_is_node_def)
qed

section \<open>Properties\<close>

subsection \<open>Encoding a URL\<close>

text \<open>
  Claim C5.  \<^verbatim>\<open>url_to_lru("http://www.google.com/search?q=text&p=2")\<close> is exactly
  \<^verbatim>\<open>s:http|t:80|h:com|h:google|h:www|p:search|q:q=text&p=2|\<close>: the scheme stem, the
  default port 80 of http, the host labels with the top-level domain first, one path
  stem, one query stem with its pairs as they were, and a final pipe.
\<close>

theorem url_to_lru_google:
  "url_to_lru (Str ''http://www.google.com/search?q=text&p=2'') True =
     Inr (Str ''s:http|t:80|h:com|h:google|h:www|p:search|q:q=text&p=2|'')"
  by code_simp

text \<open>
  Claim C7, at the input \<^verbatim>\<open>httpx://example.com/\<close>.  The scheme test is
  \<^verbatim>\<open>lruSchemePattern.match\<close> with the pattern \<^verbatim>\<open>https?\<close>, which accepts every scheme
  that begins with \<^verbatim>\<open>http\<close>: the URL is encoded, with port 80, and no error is
  raised.
\<close>

theorem url_to_lru_httpx:
  "url_to_lru (Str ''httpx://example.com/'') True = Inr (Str ''s:httpx|t:80|h:com|h:example|p:|'')"
  by code_simp

subsection \<open>Parent prefixes\<close>

text \<open>
  Claim C6, as the code has it.
  \<^verbatim>\<open>lru_parent_prefixes("s:http|t:80|h:com|h:example|p:a|p:b|")\<close> returns five
  entries, longest first, each with a final pipe: the prefixes that end after
  \<^verbatim>\<open>p:a\<close>, \<^verbatim>\<open>h:example\<close>, \<^verbatim>\<open>h:com\<close>, \<^verbatim>\<open>t:80\<close> and \<^verbatim>\<open>s:http\<close>.  The loop
  runs until no stem is left, so the scheme stem alone is the last entry.
\<close>

theorem lru_parent_prefixes_example:
  "lru_parent_prefixes ''s:http|t:80|h:com|h:example|p:a|p:b|'' =
     Inr [''s:http|t:80|h:com|h:example|p:a|'', ''s:http|t:80|h:com|h:example|'',
          ''s:http|t:80|h:com|'', ''s:http|t:80|'', ''s:http|'']"
  by code_simp

text \<open>The result is not the list of four entries that stops after \<^verbatim>\<open>t:80\<close>.\<close>

theorem lru_parent_prefixes_not_four:
  "lru_parent_prefixes ''s:http|t:80|h:com|h:example|p:a|p:b|'' \<noteq>
     Inr [''s:http|t:80|h:com|h:example|p:a|'', ''s:http|t:80|h:com|h:example|'',
          ''s:http|t:80|h:com|'', ''s:http|t:80|'']"
  by code_simp

subsection \<open>Standard ports\<close>

text \<open>
  Claim C8, at the input \<^verbatim>\<open>s:http|t:443|h:com|h:example|\<close>.
  \<^verbatim>\<open>lru_strip_standard_ports\<close> drops every stem \<^verbatim>\<open>t:80\<close> and \<^verbatim>\<open>t:443\<close> without
  reading the scheme stem, so the port 443 of an http LRU is removed, by the pass
  and by the whole pipeline.
\<close>

theorem lru_strip_standard_ports_http_443:
  "lru_strip_standard_ports ''s:http|t:443|h:com|h:example|'' = Inr ''s:http|h:com|h:example|'' \<and>
   lru_clean (Str ''s:http|t:443|h:com|h:example|'') = Inr (Str ''s:http|h:com|h:example|'')"
  by code_simp

subsection \<open>Recoding a query\<close>

text \<open>
  Claim C9, at the input \<^verbatim>\<open>a=&b=c\<close>.  The pattern \<^verbatim>\<open>queryStems\<close> asks for a value
  of at least one character, so it does not match \<^verbatim>\<open>a=\<close>; the split has four
  elements, the result is joined from the groups of the matches alone, and the pair
  with the empty value is lost.  (The recoded pieces are unicode objects, and so is
  the result.)
\<close>

theorem uri_recode_query_empty_value:
  "queryStems_split ''a=&b=c'' = [''a='', ''b'', ''c'', []] \<and>
   uri_recode_query (Str ''a=&b=c'') = Inr (Uni ''b=c'')"
  by code_simp

subsection \<open>Variations\<close>

text \<open>
  Claim C10, as the code has it.  For every text that contains neither \<^verbatim>\<open>s:http|\<close>
  nor \<^verbatim>\<open>s:https|\<close>, \<^verbatim>\<open>lru_variations\<close> returns no list: when \<^verbatim>\<open>lru_to_url\<close> rejects
  the text, its error is raised; when it returns, neither branch of the scheme test
  assigns \<^verbatim>\<open>lru2\<close>, and reading it raises \<^verbatim>\<open>UnboundLocalError\<close>.
\<close>

theorem lru_variations_unassigned:
  assumes "\<not> contains (content lru) ''s:http|''" and "\<not> contains (content lru) ''s:https|''"
  shows "lru_variations lru https www encode_utf8 =
           Inl (case lru_to_url lru encode_utf8 False of Inl e \<Rightarrow> e | Inr url \<Rightarrow> UnboundLocalError)"
  using assms by (simp add: lru_variations_def split: sum.splits)

theorem lru_variations_unassigned_witness:
  "\<not> contains (content (Str ''s:ftp|t:21|h:com|h:example|'')) ''s:http|'' \<and>
   \<not> contains (content (Str ''s:ftp|t:21|h:com|h:example|'')) ''s:https|'' \<and>
   lru_to_url (Str ''s:ftp|t:21|h:com|h:example|'') False False = Inr (Str ''ftp://example.com:21'') \<and>
   lru_variations (Str ''s:ftp|t:21|h:com|h:example|'') True True False = Inl UnboundLocalError"
proof -
  have a: "\<not> contains (content (Str ''s:ftp|t:21|h:com|h:example|'')) ''s:http|''"
    by code_simp
  have b: "\<not> contains (content (Str ''s:ftp|t:21|h:com|h:example|'')) ''s:https|''"
    by code_simp
  have c: "lru_to_url (Str ''s:ftp|t:21|h:com|h:example|'') False False = Inr (Str ''ftp://example.com:21'')"
    by code_simp
  show ?thesis
    using a b c lru_variations_unassigned [OF a b, of True True False] by simp
qed

text \<open>
  The test of the code is on the text, not on the scheme stem: an LRU of scheme ftp
  whose path ends in \<^verbatim>\<open>s:http\<close> holds \<^verbatim>\<open>s:http|\<close>, and \<^verbatim>\<open>lru_variations\<close> returns
  a list for it.  And the error is not always \<^verbatim>\<open>UnboundLocalError\<close>: with an empty
  host label \<^verbatim>\<open>lru_to_url\<close> raises \<^verbatim>\<open>ValueError\<close> first.
\<close>

theorem lru_variations_other_stem:
  "lru_variations (Str ''s:ftp|t:21|h:x|p:s:http|'') True True False =
     Inr [Str ''s:ftp|t:21|h:x|p:s:http|'', Str ''s:ftp|t:21|h:x|p:s:https|''] \<and>
   \<not> contains ''s:ftp|t:21|h:|'' ''s:http|'' \<and> \<not> contains ''s:ftp|t:21|h:|'' ''s:https|'' \<and>
   lru_variations (Str ''s:ftp|t:21|h:|'') True True False = Inl ValueError"
  by code_simp

subsection \<open>The head of an LRU\<close>

text \<open>
  Claim C3, as the code has it.  For every text \<open>lru\<close> and every list of precision
  exceptions: when some non-empty exception is a literal prefix of \<open>lru\<close>,
  \<^verbatim>\<open>lru_get_head\<close> returns an exception that is a prefix of \<open>lru\<close> and is at least
  as long as every exception that is a prefix of \<open>lru\<close>; when none is and \<open>lru\<close>
  begins with a stem of type s, t or h, as an LRU does with its scheme stem, it
  returns the leading run of such stems, each followed by a pipe.
\<close>

theorem lru_get_head_longest_prefix:
  "(list_ex (\<lambda>e. e \<noteq> [] \<and> startswith lru e) exs \<longrightarrow>
      (\<exists>r. lru_get_head lru exs = Inr r \<and> r \<in> set exs \<and> startswith lru r \<and>
           list_all (\<lambda>e. startswith lru e \<longrightarrow> length e \<le> length r) exs)) \<and>
   (\<not> list_ex (\<lambda>e. e \<noteq> [] \<and> startswith lru e) exs \<and> re_host_lru_token lru \<longrightarrow>
      lru_get_head lru exs = Inr (sth_head lru))"
  using lru_get_head_exception [of lru exs] lru_get_head_default [of lru exs] by blast

text \<open>
  The example of the claim: the exception is returned as it is, also when it is
  shorter than the run of s, t and h stems, which is the result without exceptions.
\<close>

theorem lru_get_head_longest_prefix_witness:
  "lru_get_head ''s:http|t:80|h:com|h:example|p:a|'' [''s:http|t:80|h:com|h:example|''] =
     Inr ''s:http|t:80|h:com|h:example|'' \<and>
   lru_get_head ''s:http|t:80|h:com|h:example|p:a|'' [''s:http|t:80|''] = Inr ''s:http|t:80|'' \<and>
   lru_get_head ''s:http|t:80|h:com|h:example|p:a|'' [] = Inr ''s:http|t:80|h:com|h:example|''"
proof -
  have a: "list_ex (\<lambda>e. e \<noteq> [] \<and> startswith ''s:http|t:80|h:com|h:example|p:a|'' e)
             [''s:http|t:80|h:com|h:example|'']"
    by simp
  have b: "list_ex (\<lambda>e. e \<noteq> [] \<and> startswith ''s:http|t:80|h:com|h:example|p:a|'' e)
             [''s:http|t:80|'']"
    by simp
  have c: "\<not> list_ex (\<lambda>e. e \<noteq> [] \<and> startswith ''s:http|t:80|h:com|h:example|p:a|'' e) [] \<and>
           re_host_lru_token ''s:http|t:80|h:com|h:example|p:a|''"
    by (simp add: re_host_lru_token_def)
  have d: "sth_head ''s:http|t:80|h:com|h:example|p:a|'' = ''s:http|t:80|h:com|h:example|''"
    by code_simp
  show ?thesis
    using lru_get_head_longest_prefix [of "''s:http|t:80|h:com|h:example|p:a|''" "[''s:http|t:80|h:com|h:example|'']"]
          lru_get_head_longest_prefix [of "''s:http|t:80|h:com|h:example|p:a|''" "[''s:http|t:80|'']"]
          lru_get_head_longest_prefix [of "''s:http|t:80|h:com|h:example|p:a|''" "[]"]
          a b c d
    by auto
qed

text \<open>
  The empty exception is a literal prefix of every text, and the only exception
  here, but it is never returned: the loop keeps an exception only when it is longer
  than the empty text it starts from, and the result of the loop is used only when
  it is not empty.  The default run is returned.
\<close>

theorem lru_get_head_empty_exception:
  "startswith ''s:http|t:80|h:com|h:example|p:a|'' [] \<and>
   lru_get_head ''s:http|t:80|h:com|h:example|p:a|'' [[]] = Inr ''s:http|t:80|h:com|h:example|''"
  by code_simp

subsection \<open>Nodes\<close>

text \<open>
  Claim C4, at the well-formed LRU \<^verbatim>\<open>s:http|t:80|h:com|p:xs:http|p:b|\<close> of five
  stems, with the exception \<^verbatim>\<open>s:http|\<close> and the limit 3.  The head is the exception,
  the text of the first stem, and four stems follow it.  \<^verbatim>\<open>lru_is_node\<close> removes the head with \<^verbatim>\<open>lru.replace(lru_head, '')\<close>,
  which removes every occurrence, also the one at the end of the path value: three
  stems are counted and the result is \<^verbatim>\<open>True\<close>.  And a head that ends inside a stem
  leaves a text that \<^verbatim>\<open>split_lru_in_stems\<close> rejects: the call raises.
\<close>

theorem lru_is_node_head_removed_everywhere:
  "wf_lru [(CHR ''s'', ''http''), (CHR ''t'', ''80''), (CHR ''h'', ''com''), (CHR ''p'', ''xs:http''),
           (CHR ''p'', ''b'')] \<and>
   render [(CHR ''s'', ''http''), (CHR ''t'', ''80''), (CHR ''h'', ''com''), (CHR ''p'', ''xs:http''),
           (CHR ''p'', ''b'')] = ''s:http|t:80|h:com|p:xs:http|p:b|'' \<and>
   render [(CHR ''s'', ''http'')] = ''s:http|'' \<and>
   lru_get_head ''s:http|t:80|h:com|p:xs:http|p:b|'' [''s:http|''] = Inr ''s:http|'' \<and>
   lru_is_node ''s:http|t:80|h:com|p:xs:http|p:b|'' 3 [''s:http|''] None = Inr True \<and>
   lru_is_node ''s:http|t:80|h:com|h:example|p:a|'' 1 [''s:http|t:80|h:com|h:exa''] None =
     Inl ValueError"
  by code_simp

text \<open>The stems after the head, and the stems of the text that is counted.\<close>

lemma lru_is_node_head_removed_stems:
  "split_lru_in_stems ''t:80|h:com|p:xs:http|p:b|'' False =
     Inr [(''t'', ''80'', ''t:80''), (''h'', ''com'', ''h:com''), (''p'', ''xs:http'', ''p:xs:http''),
          (''p'', ''b'', ''p:b'')] \<and>
   replace_all ''s:http|t:80|h:com|p:xs:http|p:b|'' ''s:http|'' [] = ''t:80|h:com|p:xp:b|'' \<and>
   split_lru_in_stems ''t:80|h:com|p:xp:b|'' False =
     Inr [(''t'', ''80'', ''t:80''), (''h'', ''com'', ''h:com''), (''p'', ''xp:b'', ''p:xp:b'')]"
  by code_simp

text \<open>
  Where the head occurs once and ends at a stem boundary the count is the one of the
  stems after the head.  For every well-formed LRU, written from its stems \<open>ss\<close>, and
  every list of precision exceptions of which those that are prefixes of the LRU end
  at a stem boundary after the port stem: the head that \<^verbatim>\<open>lru_get_head\<close> resolves is
  the text of the first \<open>n\<close> stems for some \<open>n\<close>, and \<^verbatim>\<open>lru_is_node\<close> holds exactly
  when the number of stems left after these \<open>n\<close> is at most the precision limit.
\<close>

lemma lru_is_node_counts_stems:
  assumes "wf_lru ss"
    and "list_all (\<lambda>e. e \<noteq> [] \<and> startswith (render ss) e \<longrightarrow> e \<in> set (stem_prefixes ss)) exs"
  shows "(\<exists>n. 2 \<le> n \<and> n \<le> length ss \<and> lru_get_head (render ss) exs = Inr (render (take n ss))) \<and>
         (\<forall>n. n \<le> length ss \<and> lru_get_head (render ss) exs = Inr (render (take n ss)) \<longrightarrow>
              lru_is_node (render ss) limit exs None = Inr (int (length (drop n ss)) \<le> limit))"
proof (intro conjI allI impI)
  show "\<exists>n. 2 \<le> n \<and> n \<le> length ss \<and> lru_get_head (render ss) exs = Inr (render (take n ss))"
    using assms by (rule lru_get_head_wf)
next
  fix n
  assume a: "n \<le> length ss \<and> lru_get_head (render ss) exs = Inr (render (take n ss))"
  obtain m where m: "2 \<le> m" "m \<le> length ss" "lru_get_head (render ss) exs = Inr (render (take m ss))"
    using lru_get_head_wf [OF assms] by blast
  have "n = m"
    using a m by (intro render_take_inj [of n ss m]) simp_all
  then show "lru_is_node (render ss) limit exs None = Inr (int (length (drop n ss)) \<le> limit)"
    using lru_is_node_head [OF assms(1) m(1) m(3)] by simp
qed

text \<open>
  The examples of the spec, with the default limit 1: no stem beyond the head, two
  stems beyond the head, and one stem beyond an exception that is the head.
\<close>

lemma lru_is_node_counts_stems_examples:
  "wf_lru [(CHR ''s'', ''http''), (CHR ''t'', ''80''), (CHR ''h'', ''com''), (CHR ''h'', ''example'')] \<and>
   lru_is_node ''s:http|t:80|h:com|h:example|'' 1 [] None = Inr True \<and>
   wf_lru [(CHR ''s'', ''http''), (CHR ''t'', ''80''), (CHR ''h'', ''com''), (CHR ''h'', ''example''),
           (CHR ''p'', ''a''), (CHR ''p'', ''b'')] \<and>
   lru_is_node ''s:http|t:80|h:com|h:example|p:a|p:b|'' 1 [] None = Inr False \<and>
   lru_is_node ''s:http|t:80|h:com|h:example|p:a|p:b|'' 1 [''s:http|t:80|h:com|h:example|p:a|''] None
     = Inr True"
proof -
  define a where "a = [(CHR ''s'', ''http''), (CHR ''t'', ''80''), (CHR ''h'', ''com''), (CHR ''h'', ''example'')]"
  define b where "b = [(CHR ''s'', ''http''), (CHR ''t'', ''80''), (CHR ''h'', ''com''), (CHR ''h'', ''example''),
           (CHR ''p'', ''a''), (CHR ''p'', ''b'')]"
  define e where "e = [''s:http|t:80|h:com|h:example|p:a|'']"
  have wa: "wf_lru a" and wb: "wf_lru b"
    by (simp_all add: a_def b_def wf_lru_def stem_types_ok_def)
  have ra: "render a = ''s:http|t:80|h:com|h:example|''"
    and ra4: "render (take 4 a) = ''s:http|t:80|h:com|h:example|''"
    and rb: "render b = ''s:http|t:80|h:com|h:example|p:a|p:b|''"
    and rb4: "render (take 4 b) = ''s:http|t:80|h:com|h:example|''"
    and rb5: "render (take 5 b) = ''s:http|t:80|h:com|h:example|p:a|''"
    by (simp_all add: a_def b_def render_def stem_text_def)
  have la: "4 \<le> length a" "int (length (drop 4 a)) \<le> 1"
    and lb: "4 \<le> length b" "5 \<le> length b" "\<not> int (length (drop 4 b)) \<le> 1" "int (length (drop 5 b)) \<le> 1"
    by (simp_all add: a_def b_def)
  have ea: "list_all (\<lambda>e. e \<noteq> [] \<and> startswith (render a) e \<longrightarrow> e \<in> set (stem_prefixes a)) []"
    and eb: "list_all (\<lambda>e. e \<noteq> [] \<and> startswith (render b) e \<longrightarrow> e \<in> set (stem_prefixes b)) []"
    by simp_all
  have "[2..<Suc (length b)] = [2, 3, 4, 5, 6]"
    by (simp add: b_def upt_rec)
  then have "render (take 5 b) \<in> set (stem_prefixes b)"
    unfolding stem_prefixes_def by simp
  then have ec: "list_all (\<lambda>e. e \<noteq> [] \<and> startswith (render b) e \<longrightarrow> e \<in> set (stem_prefixes b)) e"
    by (simp add: e_def rb5)
  have ha: "lru_get_head ''s:http|t:80|h:com|h:example|'' [] = Inr ''s:http|t:80|h:com|h:example|''"
    and hb: "lru_get_head ''s:http|t:80|h:com|h:example|p:a|p:b|'' [] = Inr ''s:http|t:80|h:com|h:example|''"
    and hc: "lru_get_head ''s:http|t:80|h:com|h:example|p:a|p:b|'' [''s:http|t:80|h:com|h:example|p:a|'']
               = Inr ''s:http|t:80|h:com|h:example|p:a|''"
    by code_simp+
  have pa: "4 \<le> length a \<and> lru_get_head (render a) [] = Inr (render (take 4 a))"
    unfolding ra ra4 using la(1) ha by (rule conjI)
  have pb: "4 \<le> length b \<and> lru_get_head (render b) [] = Inr (render (take 4 b))"
    unfolding rb rb4 using lb(1) hb by (rule conjI)
  have pc: "5 \<le> length b \<and> lru_get_head (render b) e = Inr (render (take 5 b))"
    unfolding rb rb5 e_def using lb(2) hc by (rule conjI)
  have 1: "lru_is_node (render a) 1 [] None = Inr (int (length (drop 4 a)) \<le> 1)"
    using lru_is_node_counts_stems [OF wa ea, of 1, THEN conjunct2, rule_format, OF pa] .
  have 2: "lru_is_node (render b) 1 [] None = Inr (int (length (drop 4 b)) \<le> 1)"
    using lru_is_node_counts_stems [OF wb eb, of 1, THEN conjunct2, rule_format, OF pb] .
  have 3: "lru_is_node (render b) 1 e None = Inr (int (length (drop 5 b)) \<le> 1)"
    using lru_is_node_counts_stems [OF wb ec, of 1, THEN conjunct2, rule_format, OF pc] .
  show ?thesis
    using wa wb 1 2 3 la(2) lb(3,4) unfolding ra rb e_def a_def [symmetric] b_def [symmetric]
    by simp
qed

subsection \<open>Canonicalization\<close>

text \<open>
  Claim C1, at the LRU \<^verbatim>\<open>s:http|t:80|h:com|\<close> of the claim: \<^verbatim>\<open>lru_clean\<close> raises
  \<^verbatim>\<open>ValueError\<close>.  \<^verbatim>\<open>lru_strip_standard_ports\<close> removes the port stem, and the guard
  of \<^verbatim>\<open>split_lru_in_stems\<close> in \<^verbatim>\<open>lru_lowerize_host\<close> then finds two stems where it
  wants three.  The same guard accepts the LRU as it is, and so does \<^verbatim>\<open>lru_to_url\<close>;
  \<^verbatim>\<open>lru_clean\<close> accepts the same host with the port 8080; and \<^verbatim>\<open>url_to_lru_clean\<close>
  rejects what \<^verbatim>\<open>url_to_lru\<close> returns for \<^verbatim>\<open>http://intranet/\<close>.
\<close>

theorem lru_clean_single_label:
  "lru_clean (Str ''s:http|t:80|h:com|'') = Inl ValueError \<and>
   lru_clean (Str ''s:http|t:8080|h:com|'') = Inr (Str ''s:http|t:8080|h:com|'') \<and>
   url_to_lru (Str ''http://intranet/'') True = Inr (Str ''s:http|t:80|h:intranet|p:|'') \<and>
   url_to_lru_clean (Str ''http://intranet/'') True = Inl ValueError"
  by code_simp

text \<open>The guard and \<^verbatim>\<open>lru_to_url\<close> on the LRU as it is, and on what the first pass leaves.\<close>

lemma lru_clean_single_label_guard:
  "split_lru_in_stems ''s:http|t:80|h:com|'' True =
     Inr [(''s'', ''http'', ''s:http''), (''t'', ''80'', ''t:80''), (''h'', ''com'', ''h:com'')] \<and>
   lru_to_url (Str ''s:http|t:80|h:com|'') True False = Inr (Str ''http://com'') \<and>
   lru_strip_standard_ports ''s:http|t:80|h:com|'' = Inr ''s:http|h:com|'' \<and>
   split_lru_in_stems ''s:http|h:com|'' True = Inl ValueError"
  by code_simp

text \<open>
  Claim C2, at the LRU \<^verbatim>\<open>s:http|t:8080|h:com|h:a|p:a|p:caf%E9|\<close>, a byte string.  The
  first application returns a unicode object of the same content: the value \<^verbatim>\<open>a\<close>
  is recoded to a unicode object, while \<^verbatim>\<open>caf%E9\<close>, whose unquoted bytes are not
  UTF-8, stays a \<^verbatim>\<open>str\<close>.  On the second application \<^verbatim>\<open>uri_decode\<close> falls back to
  \<^verbatim>\<open>urllib.unquote\<close> of a unicode object, which reads the escape as the code point
  \<^verbatim>\<open>E9\<close>, and \<^verbatim>\<open>uri_encode\<close> writes its UTF-8 bytes: the value becomes
  \<^verbatim>\<open>caf%C3%A9\<close>.
\<close>

theorem lru_clean_twice_differs:
  "lru_clean (Str ''s:http|t:8080|h:com|h:a|p:a|p:caf%E9|'') =
     Inr (Uni ''s:http|t:8080|h:com|h:a|p:a|p:caf%E9|'') \<and>
   lru_clean (Uni ''s:http|t:8080|h:com|h:a|p:a|p:caf%E9|'') =
     Inr (Uni ''s:http|t:8080|h:com|h:a|p:a|p:caf%C3%A9|'')"
  by code_simp

end
